theory Spec2Isabelle
  imports Complex_Main "HOL-Library.Word"
begin

section \<open>CardENV: the page and state engine of \<open>src/main.cpp\<close>\<close>

text \<open>
  The sketch keeps all of its state in global variables and runs one cooperative
  \<open>loop()\<close>. The embedding below turns the globals into one record, every function that
  writes a global into a function from state to state, and every value that comes from
  outside (the keyboard, \<open>millis()\<close>, the sensors, the battery) into an argument.

  Conventions of the embedding:
  \<^item> \<open>int\<close> variables are HOL integers; the ones that matter stay inside small ranges
    (shown below), so 32-bit overflow does not occur. C's \<open>/\<close> and \<open>%\<close> truncate towards
    zero and are written \<open>c_div\<close> and \<open>c_mod\<close>.
  \<^item> \<open>unsigned long\<close> is 32 bits wide on the ESP32-S3: a \<open>32 word\<close>, whose subtraction
    wraps and whose order is the unsigned one.
  \<^item> a \<open>float\<close> is modelled by the real number it denotes. Stores, loads and
    comparisons are exact; every arithmetic operation rounds its exact result to the
    nearest binary32 value (\<open>f32\<close>), or to the nearest binary64 value (\<open>f64\<close>) where C
    computes in \<open>double\<close> because an operand is a \<open>double\<close> literal, ties to even, and a
    \<open>double\<close> assigned to a \<open>float\<close> is rounded once more. Infinities and NaN are not
    modelled: a result beyond the largest finite value is outside the model.
  \<^item> the calls on \<open>M5Cardputer.Display\<close> are recorded, in order, in the \<open>display\<close>
    field; output on \<open>Serial\<close> and \<open>delay\<close> are left out.
\<close>

subsection \<open>C arithmetic\<close>

type_synonym u32 = "32 word"

definition c_div :: "int \<Rightarrow> int \<Rightarrow> int" where
  "c_div a b = sgn a * sgn b * (\<bar>a\<bar> div \<bar>b\<bar>)"

definition c_mod :: "int \<Rightarrow> int \<Rightarrow> int" where
  "c_mod a b = a - b * c_div a b"

text \<open>The conversion \<open>(int) x\<close> of a floating-point value drops the fraction.\<close>

definition c_int :: "real \<Rightarrow> int" where
  "c_int x = (if 0 \<le> x then \<lfloor>x\<rfloor> else \<lceil>x\<rceil>)"

subsection \<open>Floating-point rounding\<close>

text \<open>\<open>pow2 k\<close> is \<open>2\<close> to the power \<open>k\<close>, and \<open>round_even\<close> rounds to the nearest
  integer, a tie going to the even one.\<close>

definition pow2 :: "int \<Rightarrow> real" where
  "pow2 k = (if 0 \<le> k then 2 ^ nat k else 1 / 2 ^ nat (- k))"

definition round_even :: "real \<Rightarrow> int" where
  "round_even q =
     (let f = \<lfloor>q\<rfloor>; d = q - of_int f
      in if d < 1 / 2 then f else if d > 1 / 2 then f + 1 else if even f then f else f + 1)"

text \<open>\<open>scale_exp n a 0\<close> is the binary exponent of \<open>a > 0\<close>, the \<open>e\<close> with
  \<open>2 ^ e \<le> a < 2 ^ (e + 1)\<close>, found in at most \<open>n\<close> halvings or doublings.\<close>

fun scale_exp :: "nat \<Rightarrow> real \<Rightarrow> int \<Rightarrow> int" where
  "scale_exp 0 a e = e"
| "scale_exp (Suc n) a e =
     (if 2 \<le> a then scale_exp n (a / 2) (e + 1)
      else if a < 1 then scale_exp n (a * 2) (e - 1)
      else e)"

text \<open>Rounding to the binary format with \<open>p\<close> significant bits and least normal
  exponent \<open>emin\<close>: the multiple of the unit in the last place nearest to \<open>x\<close>. Below
  \<open>2 ^ emin\<close> the unit is that of the subnormal numbers.\<close>

definition fl :: "nat \<Rightarrow> int \<Rightarrow> real \<Rightarrow> real" where
  "fl p emin x =
     (if x = 0 then 0
      else (let e = max emin (scale_exp 1100 \<bar>x\<bar> 0);
                u = pow2 (e - int p + 1)
            in of_int (round_even (x / u)) * u))"

definition f32 :: "real \<Rightarrow> real" where "f32 = fl 24 (- 126)"
definition f64 :: "real \<Rightarrow> real" where "f64 = fl 53 (- 1022)"

text \<open>\<open>map\<close> of the Arduino core: \<open>(x - in_min) * (out_max - out_min) / (in_max - in_min) + out_min\<close>
  in integer arithmetic, and \<open>-1\<close> for an empty input range.\<close>

definition arduino_map :: "int \<Rightarrow> int \<Rightarrow> int \<Rightarrow> int \<Rightarrow> int \<Rightarrow> int" where
  "arduino_map x in_min in_max out_min out_max =
     (if in_max - in_min = 0 then - 1
      else c_div ((x - in_min) * (out_max - out_min)) (in_max - in_min) + out_min)"

subsection \<open>The display surface\<close>

text \<open>Colours are 16-bit RGB565 values; the \<open>TFT_\<close> names are the library's.\<close>

datatype color =
    TFT_BLACK | TFT_WHITE | TFT_GREEN | TFT_YELLOW | TFT_RED | TFT_DARKGREY | TFT_CYAN
  | RGB565 "16 word"

definition COLOR_TEMP :: color where "COLOR_TEMP = RGB565 0xFD20"
definition COLOR_HUMIDITY :: color where "COLOR_HUMIDITY = RGB565 0x07FF"
definition COLOR_PRESSURE :: color where "COLOR_PRESSURE = RGB565 0xD01F"

text \<open>One constructor for each operation of \<open>M5Cardputer.Display\<close> that the sketch calls.\<close>

datatype display_op =
    SetBrightness int
  | FillScreen color
  | SetTextSize int
  | SetTextColor color
  | SetCursor int int
  | Print string
  | DrawRect int int int int color
  | FillRect int int int int color
  | DrawRoundRect int int int int int color
  | FillRoundRect int int int int int color
  | FillCircle int int int color
  | FillTriangle int int int int int int color
  | DrawLine int int int int color
  | SetRotation int

text \<open>\<open>sprintf\<close> and \<open>printf\<close> belong to the C library: the formatting function is a
  parameter of every function that formats a number.\<close>

datatype fmt_arg = ArgF real | ArgD int | ArgS string

type_synonym sprintf_fn = "string \<Rightarrow> fmt_arg list \<Rightarrow> string"

subsection \<open>The global variables\<close>

datatype ScreenState = SCREEN_ON | SCREEN_OFF

record state =
  temperature :: real
  humidity :: real
  pressure :: real
  dispTemp :: real
  dispHumidity :: real
  dispPressure :: real
  tempHistory :: "real list"
  humidityHistory :: "real list"
  pressureHistory :: "real list"
  historyIndex :: int
  historyCount :: int
  lastHistoryUpdate :: u32
  screenW :: int
  screenH :: int
  currentPage :: int
  lastActivityTime :: u32
  normalBrightness :: int
  screenState :: ScreenState
  lastDisplayUpdate :: u32
  batteryFlashOn :: bool
  lastFlashTime :: u32
  prevBatteryLevel :: int
  prevCharging :: bool
  tempBoxX :: int
  humidBoxX :: int
  pressBoxX :: int
  boxY :: int
  needsFullRedraw :: bool
  graphDispValue :: real
  useFahrenheit :: bool
  screenTimeoutOption :: int
  settingsSelection :: int
  display :: "display_op list"

definition historySize :: int where "historySize = 60"
definition historyInterval :: u32 where "historyInterval = 60000"
definition displayInterval :: u32 where "displayInterval = 1000"
definition flashInterval :: int where "flashInterval = 500"
definition boxWidth :: int where "boxWidth = 72"
definition boxHeight :: int where "boxHeight = 85"
definition boxMargin :: int where "boxMargin = 6"
definition boxRadius :: int where "boxRadius = 8"
definition boxBorderWidth :: int where "boxBorderWidth = 2"
definition topMargin :: int where "topMargin = 22"
definition screenTimeoutValues :: "u32 list" where
  "screenTimeoutValues = [10000, 30000, 0]"

text \<open>The initial values of the globals. Arrays with static storage start zeroed; the
  variables that \<open>setup()\<close> assigns before anything reads them start at 0 here.\<close>

definition globals0 :: state where
  "globals0 = \<lparr>
     temperature = 0, humidity = 0, pressure = 0,
     dispTemp = - 999, dispHumidity = - 999, dispPressure = - 999,
     tempHistory = replicate 60 0, humidityHistory = replicate 60 0,
     pressureHistory = replicate 60 0,
     historyIndex = 0, historyCount = 0, lastHistoryUpdate = 0,
     screenW = 0, screenH = 0, currentPage = 0, lastActivityTime = 0,
     normalBrightness = 80, screenState = SCREEN_ON, lastDisplayUpdate = 0,
     batteryFlashOn = True, lastFlashTime = 0, prevBatteryLevel = - 1,
     prevCharging = False,
     tempBoxX = 0, humidBoxX = 0, pressBoxX = 0, boxY = 0,
     needsFullRedraw = True, graphDispValue = - 999,
     useFahrenheit = False, screenTimeoutOption = 2, settingsSelection = 0,
     display = [] \<rparr>"

definition emit :: "display_op list \<Rightarrow> state \<Rightarrow> state" where
  "emit ops s = s\<lparr>display := display s @ ops\<rparr>"

subsection \<open>History ring buffer\<close>

text \<open>\<open>updateHistory\<close>: the body of its \<open>if\<close> is \<open>storeSample\<close>.\<close>

definition storeSample :: "u32 \<Rightarrow> state \<Rightarrow> state" where
  "storeSample now s = s\<lparr>
     lastHistoryUpdate := now,
     tempHistory := (tempHistory s)[nat (historyIndex s) := temperature s],
     humidityHistory := (humidityHistory s)[nat (historyIndex s) := humidity s],
     pressureHistory := (pressureHistory s)[nat (historyIndex s) := pressure s],
     historyIndex := c_mod (historyIndex s + 1) historySize,
     historyCount := (if historyCount s < historySize then historyCount s + 1
                      else historyCount s) \<rparr>"

definition updateHistory :: "u32 \<Rightarrow> state \<Rightarrow> state" where
  "updateHistory now s =
     (if now - lastHistoryUpdate s \<ge> historyInterval \<or> historyCount s = 0
      then storeSample now s else s)"

text \<open>The index that the loops of \<open>drawGraphPageStatic\<close> read in iteration \<open>i\<close>:
  \<open>(historyIndex - historyCount + i + historySize) % historySize\<close>.\<close>

definition histIdx :: "state \<Rightarrow> int \<Rightarrow> int" where
  "histIdx s i = c_mod (historyIndex s - historyCount s + i + historySize) historySize"

text \<open>The samples those loops visit, in the order of the loop
  \<open>for (int i = 0; i < historyCount; i++)\<close>.\<close>

definition readOrdered :: "state \<Rightarrow> real list \<Rightarrow> real list" where
  "readOrdered s history =
     map (\<lambda>i. history ! nat (histIdx s (int i))) [0..<nat (historyCount s)]"

text \<open>A sensor reading followed by a store: what one iteration of \<open>loop()\<close> does to the
  buffer when the gate of \<open>updateHistory\<close> is open.\<close>

record sample =
  atMillis :: u32
  cTemp :: real
  relHumidity :: real
  hPa :: real

definition appendSample :: "sample \<Rightarrow> state \<Rightarrow> state" where
  "appendSample v s =
     storeSample (atMillis v)
       (s\<lparr>temperature := cTemp v, humidity := relHumidity v, pressure := hPa v\<rparr>)"

definition appendAll :: "sample list \<Rightarrow> state \<Rightarrow> state" where
  "appendAll vs s = fold appendSample vs s"

text \<open>The bounds the ring buffer lives in.\<close>

definition ring_inv :: "state \<Rightarrow> bool" where
  "ring_inv s \<longleftrightarrow>
     0 \<le> historyIndex s \<and> historyIndex s < historySize \<and>
     0 \<le> historyCount s \<and> historyCount s \<le> historySize \<and>
     length (tempHistory s) = 60 \<and> length (humidityHistory s) = 60 \<and>
     length (pressureHistory s) = 60"

subsection \<open>Text helpers and temperature conversion\<close>

definition getTextWidth :: "string \<Rightarrow> int \<Rightarrow> int" where
  "getTextWidth text textSize = int (length text) * 6 * textSize"

definition drawCenteredText :: "state \<Rightarrow> string \<Rightarrow> int \<Rightarrow> int \<Rightarrow> color \<Rightarrow> display_op list" where
  "drawCenteredText s text y textSize color =
     [SetTextSize textSize, SetTextColor color,
      SetCursor (c_div (screenW s - getTextWidth text textSize) 2) y, Print text]"

definition drawCenteredTextInBox ::
    "string \<Rightarrow> int \<Rightarrow> int \<Rightarrow> int \<Rightarrow> int \<Rightarrow> color \<Rightarrow> display_op list" where
  "drawCenteredTextInBox text boxX boxW y textSize color =
     [SetTextSize textSize, SetTextColor color,
      SetCursor (boxX + c_div (boxW - getTextWidth text textSize) 2) y, Print text]"

definition drawThickRoundRect ::
    "int \<Rightarrow> int \<Rightarrow> int \<Rightarrow> int \<Rightarrow> int \<Rightarrow> int \<Rightarrow> color \<Rightarrow> display_op list" where
  "drawThickRoundRect x y w h radius thickness color =
     map (\<lambda>i. DrawRoundRect (x + i) (y + i) (w - i * 2) (h - i * 2) radius color)
       (map int [0..<nat thickness])"

text \<open>\<open>(tempC * 9.0 / 5.0) + 32.0\<close> is computed in \<open>double\<close> and returned as \<open>float\<close>.\<close>

definition getDisplayTemp :: "state \<Rightarrow> real \<Rightarrow> real" where
  "getDisplayTemp s tempC =
     (if useFahrenheit s then f32 (f64 (f64 (f64 (tempC * 9) / 5) + 32)) else tempC)"

definition getTempUnit :: "state \<Rightarrow> string" where
  "getTempUnit s = (if useFahrenheit s then ''F'' else ''C'')"

subsection \<open>Icons\<close>

definition drawThermometerIcon :: "int \<Rightarrow> int \<Rightarrow> color \<Rightarrow> display_op list" where
  "drawThermometerIcon cx cy color =
     [FillCircle cx (cy + 8) 6 color,
      FillRoundRect (cx - 3) (cy - 10) 6 18 2 color,
      FillCircle cx (cy + 8) 3 TFT_BLACK,
      FillRect (cx - 1) (cy - 6) 2 12 TFT_BLACK,
      FillCircle cx (cy + 8) 2 color,
      FillRect (cx - 1) (cy - 2) 2 10 color]"

definition drawDropletIcon :: "int \<Rightarrow> int \<Rightarrow> color \<Rightarrow> display_op list" where
  "drawDropletIcon cx cy color =
     [FillCircle cx (cy + 4) 7 color,
      FillTriangle cx (cy - 12) (cx - 7) (cy + 2) (cx + 7) (cy + 2) color,
      FillCircle (cx - 2) (cy + 2) 2 TFT_WHITE]"

definition drawBarometerIcon :: "int \<Rightarrow> int \<Rightarrow> color \<Rightarrow> display_op list" where
  "drawBarometerIcon cx cy color =
     [FillCircle cx cy 10 color,
      FillCircle cx cy 7 TFT_BLACK,
      DrawLine (cx - 6) cy (cx - 4) cy color,
      DrawLine (cx + 4) cy (cx + 6) cy color,
      DrawLine cx (cy - 6) cx (cy - 4) color,
      DrawLine cx cy (cx + 4) (cy - 4) color,
      DrawLine cx cy (cx + 5) (cy - 3) color,
      FillCircle cx cy 2 color]"

subsection \<open>Battery display\<close>

text \<open>What one call of \<open>drawBattery\<close> reads from the power chip and the clock.\<close>

record power =
  batteryLevel :: int
  isCharging :: bool
  flashMillis :: u32

definition getBatteryColor :: "int \<Rightarrow> bool \<Rightarrow> color" where
  "getBatteryColor level charging =
     (if charging then TFT_GREEN
      else if level > 70 then TFT_GREEN
      else if level > 30 then TFT_YELLOW
      else TFT_RED)"

definition drawLightningBolt :: "int \<Rightarrow> int \<Rightarrow> color \<Rightarrow> display_op list" where
  "drawLightningBolt x y color =
     [DrawLine (x + 4) y (x + 1) (y + 4) color,
      DrawLine (x + 1) (y + 4) (x + 3) (y + 4) color,
      DrawLine (x + 3) (y + 4) x (y + 8) color,
      DrawLine (x + 5) y (x + 2) (y + 4) color,
      DrawLine (x + 4) (y + 4) (x + 1) (y + 8) color]"

text \<open>The part of \<open>drawBattery\<close> after \<open>if (!batteryFlashOn) return;\<close>.\<close>

definition batteryGlyph :: "sprintf_fn \<Rightarrow> int \<Rightarrow> bool \<Rightarrow> int \<Rightarrow> int \<Rightarrow> display_op list" where
  "batteryGlyph spf level charging battX battY =
     (let battColor = getBatteryColor level charging;
          battW = 22;
          battH = 10;
          fillW = arduino_map level 0 100 0 (battW - 4)
      in [DrawRect battX battY battW battH battColor,
          FillRect (battX + battW) (battY + 2) 2 6 battColor]
         @ (if fillW > 0 then [FillRect (battX + 2) (battY + 2) fillW (battH - 4) battColor]
            else [])
         @ (if charging then drawLightningBolt (battX + 6) (battY + 1) TFT_BLACK else [])
         @ [SetTextSize 1, SetTextColor battColor, SetCursor (battX + 26) (battY + 1),
            Print (spf ''%d%%'' [ArgD level])])"

definition drawBattery :: "sprintf_fn \<Rightarrow> bool \<Rightarrow> power \<Rightarrow> state \<Rightarrow> state" where
  "drawBattery spf forceRedraw pw s =
     (let level = batteryLevel pw;
          charging = isCharging pw;
          (s1, force) =
            (if level \<le> 10 \<and> \<not> charging then
               (let now = flashMillis pw in
                if now - lastFlashTime s \<ge> word_of_int flashInterval
                then (s\<lparr>lastFlashTime := now, batteryFlashOn := \<not> batteryFlashOn s\<rparr>, True)
                else (s, forceRedraw))
             else (s\<lparr>batteryFlashOn := True\<rparr>, forceRedraw))
      in if \<not> force \<and> level = prevBatteryLevel s1 \<and> charging = prevCharging s1 then s1
         else
           (let s2 = s1\<lparr>prevBatteryLevel := level, prevCharging := charging\<rparr>;
                battX = screenW s2 - 55;
                battY = 3;
                s3 = emit [FillRect (battX - 3) (battY - 1) 58 14 TFT_BLACK] s2
            in if \<not> batteryFlashOn s3 then s3
               else emit (batteryGlyph spf level charging battX battY) s3))"

subsection \<open>Screen timeout\<close>

definition updateScreenTimeout :: "u32 \<Rightarrow> state \<Rightarrow> state" where
  "updateScreenTimeout now s =
     (let timeoutDuration = screenTimeoutValues ! nat (screenTimeoutOption s) in
      if timeoutDuration = 0 then s
      else
        (let elapsed = now - lastActivityTime s in
         if screenState s = SCREEN_ON \<and> elapsed \<ge> timeoutDuration
         then (emit [SetBrightness 0] s)\<lparr>screenState := SCREEN_OFF\<rparr>
         else s))"

definition wakeScreen :: "u32 \<Rightarrow> state \<Rightarrow> state" where
  "wakeScreen now s =
     (let s1 = s\<lparr>lastActivityTime := now\<rparr> in
      if screenState s1 \<noteq> SCREEN_ON
      then (emit [SetBrightness (normalBrightness s1)] s1)
             \<lparr>screenState := SCREEN_ON, needsFullRedraw := True\<rparr>
      else s1)"

subsection \<open>Main page\<close>

definition drawMainPageStatic :: "sprintf_fn \<Rightarrow> power \<Rightarrow> state \<Rightarrow> state" where
  "drawMainPageStatic spf pw s =
     (let s1 = drawBattery spf True pw (emit [FillScreen TFT_BLACK] s);
          s2 = emit
            (drawThickRoundRect (tempBoxX s1) (boxY s1) boxWidth boxHeight boxRadius
               boxBorderWidth COLOR_TEMP
             @ drawThermometerIcon (tempBoxX s1 + c_div boxWidth 2) (boxY s1 + 22) COLOR_TEMP
             @ drawThickRoundRect (humidBoxX s1) (boxY s1) boxWidth boxHeight boxRadius
                 boxBorderWidth COLOR_HUMIDITY
             @ drawDropletIcon (humidBoxX s1 + c_div boxWidth 2) (boxY s1 + 22) COLOR_HUMIDITY
             @ drawThickRoundRect (pressBoxX s1) (boxY s1) boxWidth boxHeight boxRadius
                 boxBorderWidth COLOR_PRESSURE
             @ drawBarometerIcon (pressBoxX s1 + c_div boxWidth 2) (boxY s1 + 22) COLOR_PRESSURE)
            s1
      in s2\<lparr>dispTemp := - 999, dispHumidity := - 999, dispPressure := - 999\<rparr>)"

text \<open>\<open>updateSingleBoxValue\<close> takes the cache as a reference parameter \<open>float &dispValue\<close>:
  the model takes the cached value and returns the new one with the operations issued.
  \<open>diff\<close> is a \<open>float\<close>, the rounded difference of two \<open>float\<close>s, and is compared with
  the \<open>double\<close> literal \<open>0.05\<close>.\<close>

definition updateSingleBoxValue ::
    "sprintf_fn \<Rightarrow> state \<Rightarrow> int \<Rightarrow> real \<Rightarrow> real \<Rightarrow> color \<Rightarrow> string \<Rightarrow> string
       \<Rightarrow> real \<times> display_op list" where
  "updateSingleBoxValue spf s boxX value dispValue color format unit =
     (let diff = f32 (value - dispValue);
          diff = (if diff < 0 then - diff else diff)
      in if diff < f64 0.05 then (dispValue, [])
         else
           (let valueY = boxY s + 45;
                unitY = boxY s + 68;
                clearX = boxX + boxBorderWidth + 2;
                clearW = boxWidth - (boxBorderWidth * 2) - 4;
                buf = spf format [ArgF value]
            in (value,
                FillRect clearX (valueY - 2) clearW 35 TFT_BLACK
                # drawCenteredTextInBox buf boxX boxWidth valueY 2 color
                @ drawCenteredTextInBox unit boxX boxWidth unitY 1 color)))"

definition updateMainPageValues :: "sprintf_fn \<Rightarrow> power \<Rightarrow> state \<Rightarrow> state" where
  "updateMainPageValues spf pw s =
     (let (d1, o1) = updateSingleBoxValue spf s (tempBoxX s) (getDisplayTemp s (temperature s))
                       (dispTemp s) COLOR_TEMP ''%.1f'' (getTempUnit s);
          s1 = emit o1 (s\<lparr>dispTemp := d1\<rparr>);
          (d2, o2) = updateSingleBoxValue spf s1 (humidBoxX s1) (humidity s1)
                       (dispHumidity s1) COLOR_HUMIDITY ''%.0f'' ''%'';
          s2 = emit o2 (s1\<lparr>dispHumidity := d2\<rparr>);
          (d3, o3) = updateSingleBoxValue spf s2 (pressBoxX s2) (pressure s2)
                       (dispPressure s2) COLOR_PRESSURE ''%.0f'' ''hPa'';
          s3 = emit o3 (s2\<lparr>dispPressure := d3\<rparr>)
      in drawBattery spf False pw s3)"

subsection \<open>Graph page\<close>

text \<open>The conversion applied to a stored sample when \<open>convertToF\<close> is set
  (\<open>(val * 9.0 / 5.0) + 32.0\<close>, computed in \<open>double\<close> and assigned to a \<open>float\<close>), and the
  value \<open>val\<close> of iteration \<open>i\<close> of the two loops over the history.\<close>

definition convertSample :: "bool \<Rightarrow> real \<Rightarrow> real" where
  "convertSample convertToF val =
     (if convertToF then f32 (f64 (f64 (f64 (val * 9) / 5) + 32)) else val)"

definition loopVal :: "state \<Rightarrow> real list \<Rightarrow> bool \<Rightarrow> int \<Rightarrow> real" where
  "loopVal s history convertToF i = convertSample convertToF (history ! nat (histIdx s i))"

text \<open>The body of the min/max loop, run over the values in loop order.\<close>

definition scanMinMax :: "real list \<Rightarrow> real \<times> real \<Rightarrow> real \<times> real" where
  "scanMinMax vals acc =
     fold (\<lambda>val (graphMin, graphMax).
             (if val < graphMin then val else graphMin,
              if val > graphMax then val else graphMax)) vals acc"

text \<open>The Graph Scaler: lines 380 to 405 of \<open>drawGraphPageStatic\<close>, returning
  \<open>(graphMin, graphMax, range)\<close>. The variables are \<open>float\<close>s: a sum or difference of two
  of them is rounded to binary32; \<open>/ 2.0\<close>, \<open>- 1.0\<close>, \<open>+ 1.0\<close> and \<open>* 0.1\<close> are
  computed in \<open>double\<close> and rounded to binary32 by the assignment.\<close>

definition graphScale :: "state \<Rightarrow> real list \<Rightarrow> bool \<Rightarrow> real \<times> real \<times> real" where
  "graphScale s history convertToF =
     (let firstIdx = c_mod (historyIndex s - historyCount s + historySize) historySize;
          firstVal = convertSample convertToF (history ! nat firstIdx);
          (graphMin, graphMax) =
             scanMinMax (map (\<lambda>i. loopVal s history convertToF (int i))
                           [0..<nat (historyCount s)]) (firstVal, firstVal);
          range = f32 (graphMax - graphMin)
      in if range < 2 then
           (let mid = f32 (f64 (f32 (graphMax + graphMin) / 2))
            in (f32 (f64 (mid - 1)), f32 (f64 (mid + 1)), 2))
         else
           (let padding = f32 (f64 (range * f64 0.1));
                graphMin = f32 (graphMin - padding);
                graphMax = f32 (graphMax + padding)
            in (graphMin, graphMax, f32 (graphMax - graphMin))))"

text \<open>The plotting loop, carrying \<open>prevPx\<close> and \<open>prevPy\<close>.\<close>

fun plotLoop :: "(int \<Rightarrow> int \<times> int) \<Rightarrow> color \<Rightarrow> int list \<Rightarrow> int \<times> int \<Rightarrow> display_op list" where
  "plotLoop point color [] prev = []"
| "plotLoop point color (i # is) (prevPx, prevPy) =
     (let (px, py) = point i in
      FillCircle px py 1 color
      # (if i > 0 then [DrawLine prevPx prevPy px py color] else [])
      @ plotLoop point color is (px, py))"

definition drawGraph ::
    "sprintf_fn \<Rightarrow> state \<Rightarrow> real list \<Rightarrow> color \<Rightarrow> bool \<Rightarrow> int \<Rightarrow> int \<Rightarrow> int \<Rightarrow> int
       \<Rightarrow> display_op list" where
  "drawGraph spf s history color convertToF graphX graphY graphW graphH =
     (let (graphMin, graphMax, range) = graphScale s history convertToF;
          point = (\<lambda>i.
            (graphX + 2 + c_div (i * (graphW - 4)) (historySize - 1),
             graphY + graphH - 2
               - c_int (f32 (f32 (f32 (loopVal s history convertToF i - graphMin) / range)
                               * f32 (real_of_int (graphH - 4))))))
      in [SetTextColor TFT_DARKGREY, SetTextSize 1,
          SetCursor 2 graphY, Print (spf ''%.0f'' [ArgF graphMax]),
          SetCursor 2 (graphY + graphH - 8), Print (spf ''%.0f'' [ArgF graphMin])]
         @ plotLoop point color (map int [0..<nat (historyCount s)]) (0, 0))"

definition drawGraphPageStatic ::
    "sprintf_fn \<Rightarrow> power \<Rightarrow> string \<Rightarrow> real list \<Rightarrow> color \<Rightarrow> string \<Rightarrow> real \<Rightarrow> bool
       \<Rightarrow> state \<Rightarrow> state" where
  "drawGraphPageStatic spf pw title history color unit currentVal convertToF s =
     (let s1 = drawBattery spf True pw (emit [FillScreen TFT_BLACK] s);
          valBuf = spf ''%.1f %s'' [ArgF currentVal, ArgS unit];
          titleWidth = int (length title) * 6;
          graphX = 30;
          graphY = 18;
          graphW = screenW s1 - 35;
          graphH = screenH s1 - 45;
          s2 = emit
            [SetTextSize 1, SetTextColor color, SetCursor 5 5, Print title,
             SetCursor (5 + titleWidth + 10) 5, Print valBuf,
             DrawRect graphX graphY graphW graphH TFT_DARKGREY,
             SetTextSize 1, SetTextColor TFT_DARKGREY,
             SetCursor graphX (graphY + graphH + 3), Print ''-1hr'',
             SetCursor (graphX + graphW - 18) (graphY + graphH + 3), Print ''now'',
             SetCursor 5 (screenH s1 - 10), Print ''ESC:back''] s1;
          s3 = (if historyCount s2 > 1
                then emit (drawGraph spf s2 history color convertToF graphX graphY graphW graphH) s2
                else emit (drawCenteredText s2 ''Collecting...'' (graphY + c_div graphH 2 - 8) 1
                             TFT_DARKGREY) s2)
      in s3\<lparr>graphDispValue := - 999\<rparr>)"

definition updateGraphValue :: "sprintf_fn \<Rightarrow> real \<Rightarrow> color \<Rightarrow> string \<Rightarrow> string \<Rightarrow> state \<Rightarrow> state" where
  "updateGraphValue spf value color unit title s =
     (let diff = f32 (value - graphDispValue s);
          diff = (if diff < 0 then - diff else diff)
      in if diff < f64 0.05 then s
         else
           (let s1 = s\<lparr>graphDispValue := value\<rparr>;
                titleWidth = int (length title) * 6;
                valX = 5 + titleWidth + 10;
                valBuf = spf ''%.1f %s'' [ArgF value, ArgS unit]
            in emit [FillRect valX 3 70 12 TFT_BLACK,
                     SetTextSize 1, SetTextColor color, SetCursor valX 5, Print valBuf] s1))"

subsection \<open>Settings page\<close>

definition timeoutLabels :: "string list" where
  "timeoutLabels = [''10s'', ''30s'', ''Off'']"

definition timeoutButton :: "state \<Rightarrow> int \<Rightarrow> int \<Rightarrow> color \<Rightarrow> int \<Rightarrow> display_op list" where
  "timeoutButton s optX optY timeoutColor i =
     (let btnX = optX + (i * 35) in
      (if screenTimeoutOption s = i
       then [FillRoundRect btnX optY 32 14 3 timeoutColor, SetTextColor TFT_BLACK]
       else [DrawRoundRect btnX optY 32 14 3 timeoutColor, SetTextColor timeoutColor])
      @ [SetCursor (btnX + 6) (optY + 3), Print (timeoutLabels ! nat i)])"

definition settingsHighlight :: "state \<Rightarrow> int \<Rightarrow> int \<Rightarrow> int \<Rightarrow> display_op list" where
  "settingsHighlight s item itemY itemHeight =
     (if settingsSelection s = item
      then [FillRoundRect 10 (itemY - 3) (screenW s - 20) (itemHeight - 2) 5 (RGB565 0x2104)]
      else [])"

definition drawSettingsPageStatic :: "sprintf_fn \<Rightarrow> power \<Rightarrow> state \<Rightarrow> state" where
  "drawSettingsPageStatic spf pw s0 =
     (let s = drawBattery spf True pw (emit [FillScreen TFT_BLACK] s0);
          itemY = 35;
          itemHeight = 35;
          brightColor = (if settingsSelection s = 0 then TFT_YELLOW else TFT_WHITE);
          barX = 90; barY = itemY + 3; barW = 100; barH = 12;
          fillW = arduino_map (normalBrightness s) 20 100 0 (barW - 4);
          itemY1 = itemY + itemHeight;
          unitColor = (if settingsSelection s = 1 then TFT_YELLOW else TFT_WHITE);
          toggleX = 90; toggleY = itemY1 + 2;
          itemY2 = itemY1 + itemHeight;
          timeoutColor = (if settingsSelection s = 2 then TFT_YELLOW else TFT_WHITE);
          optX = 90; optY = itemY2 + 2
      in emit
          (drawCenteredText s ''SETTINGS'' 5 2 TFT_WHITE
           @ settingsHighlight s 0 itemY itemHeight
           @ [SetTextSize 1, SetTextColor brightColor, SetCursor 20 (itemY + 5),
              Print ''Brightness:'',
              DrawRect barX barY barW barH brightColor,
              FillRect (barX + 2) (barY + 2) fillW (barH - 4) brightColor,
              SetCursor (barX + barW + 8) (itemY + 5),
              Print (spf ''%d%%'' [ArgD (normalBrightness s)])]
           @ settingsHighlight s 1 itemY1 itemHeight
           @ [SetTextColor unitColor, SetCursor 20 (itemY1 + 5), Print ''Temp Unit:'']
           @ (if \<not> useFahrenheit s
              then [FillRoundRect toggleX toggleY 40 14 3 unitColor, SetTextColor TFT_BLACK]
              else [DrawRoundRect toggleX toggleY 40 14 3 unitColor, SetTextColor unitColor])
           @ [SetCursor (toggleX + 10) (toggleY + 3), Print ''C'']
           @ (if useFahrenheit s
              then [FillRoundRect (toggleX + 45) toggleY 40 14 3 unitColor,
                    SetTextColor TFT_BLACK]
              else [DrawRoundRect (toggleX + 45) toggleY 40 14 3 unitColor,
                    SetTextColor unitColor])
           @ [SetCursor (toggleX + 55) (toggleY + 3), Print ''F'']
           @ settingsHighlight s 2 itemY2 itemHeight
           @ [SetTextColor timeoutColor, SetCursor 20 (itemY2 + 5), Print ''Timeout:'']
           @ concat (map (timeoutButton s optX optY timeoutColor) [0, 1, 2])
           @ [SetTextColor TFT_DARKGREY, SetTextSize 1, SetCursor 5 (screenH s - 10),
              Print ''ESC:back | < >:change'']) s)"

subsection \<open>Keyboard handling\<close>

text \<open>What \<open>M5Cardputer.update()\<close> leaves in the keyboard object: \<open>isChange()\<close>,
  \<open>isPressed()\<close> and the characters of \<open>keysState().word\<close>.\<close>

record keys =
  isChange :: bool
  isPressed :: bool
  keysWord :: "char list"

text \<open>The body of \<open>for (auto key : status.word)\<close>. The escape key is the backquote
  (code \<open>0x60\<close>), the tilde or code 27. \<open>upperC\<close> is kept as its character code, and
  compared with the codes of the letters.\<close>

definition handleKey :: "char \<Rightarrow> state \<Rightarrow> state" where
  "handleKey c s =
     (let upperC = (if (of_char c :: nat) \<ge> of_char CHR ''a'' \<and> (of_char c :: nat) \<le> of_char CHR ''z''
                    then (of_char c :: nat) - 32 else of_char c)
      in if c = CHR 0x60 \<or> c = CHR ''~'' \<or> (of_char c :: nat) = 27 then
           (if currentPage s \<noteq> 0 then s\<lparr>currentPage := 0, needsFullRedraw := True\<rparr> else s)
         else if currentPage s = 0 then
           (if upperC = of_char CHR ''T'' then s\<lparr>currentPage := 1, needsFullRedraw := True\<rparr>
            else if upperC = of_char CHR ''H'' then s\<lparr>currentPage := 2, needsFullRedraw := True\<rparr>
            else if upperC = of_char CHR ''P'' then s\<lparr>currentPage := 3, needsFullRedraw := True\<rparr>
            else if upperC = of_char CHR ''S'' then s\<lparr>currentPage := 4, needsFullRedraw := True\<rparr>
            else s)
         else if currentPage s = 4 then
           (if c = CHR '';'' then
              s\<lparr>settingsSelection :=
                   (if settingsSelection s - 1 < 0 then 0 else settingsSelection s - 1),
                 needsFullRedraw := True\<rparr>
            else if c = CHR ''.'' then
              s\<lparr>settingsSelection :=
                   (if settingsSelection s + 1 > 2 then 2 else settingsSelection s + 1),
                 needsFullRedraw := True\<rparr>
            else if c = CHR '','' then
              (if settingsSelection s = 0 then
                 (let b = (if normalBrightness s - 20 < 20 then 20 else normalBrightness s - 20)
                  in (emit [SetBrightness b] s)\<lparr>normalBrightness := b, needsFullRedraw := True\<rparr>)
               else if settingsSelection s = 1 then
                 s\<lparr>useFahrenheit := False, dispTemp := - 999, needsFullRedraw := True\<rparr>
               else if settingsSelection s = 2 then
                 s\<lparr>screenTimeoutOption :=
                      (if screenTimeoutOption s - 1 < 0 then 0 else screenTimeoutOption s - 1),
                    needsFullRedraw := True\<rparr>
               else s)
            else if c = CHR ''/'' then
              (if settingsSelection s = 0 then
                 (let b = (if normalBrightness s + 20 > 100 then 100 else normalBrightness s + 20)
                  in (emit [SetBrightness b] s)\<lparr>normalBrightness := b, needsFullRedraw := True\<rparr>)
               else if settingsSelection s = 1 then
                 s\<lparr>useFahrenheit := True, dispTemp := - 999, needsFullRedraw := True\<rparr>
               else if settingsSelection s = 2 then
                 s\<lparr>screenTimeoutOption :=
                      (if screenTimeoutOption s + 1 > 2 then 2 else screenTimeoutOption s + 1),
                    needsFullRedraw := True\<rparr>
               else s)
            else s)
         else s)"

text \<open>\<open>handleKeyboard\<close>; \<open>now\<close> is what \<open>millis()\<close> returns inside \<open>wakeScreen\<close>.\<close>

definition handleKeyboard :: "keys \<Rightarrow> u32 \<Rightarrow> state \<Rightarrow> state" where
  "handleKeyboard kb now s =
     (if isChange kb then
        (if isPressed kb then
           (if screenState s \<noteq> SCREEN_ON then wakeScreen now s
            else fold handleKey (keysWord kb) (wakeScreen now s))
         else s)
      else s)"

subsection \<open>Setup\<close>

text \<open>What \<open>setup()\<close> reads from the hardware: the display size, the results of the
  sensor initialisation, the first readings and the clock.\<close>

record boot =
  dispWidth :: int
  dispHeight :: int
  shtBegin :: bool
  qmpBegin :: bool
  qmpBeginAlt :: bool
  bootTemp :: real
  bootHumidity :: real
  bootPressure :: real
  millisActivity :: u32
  millisDisplay :: u32

definition setup_fn :: "boot \<Rightarrow> state" where
  "setup_fn b =
     (let s0 = emit [SetRotation 1, SetBrightness (normalBrightness globals0)] globals0;
          s1 = s0\<lparr>screenW := dispWidth b, screenH := dispHeight b\<rparr>;
          totalWidth = (boxWidth * 3) + (boxMargin * 2);
          startX = c_div (screenW s1 - totalWidth) 2;
          s2 = s1\<lparr>tempBoxX := startX,
                   humidBoxX := startX + boxWidth + boxMargin,
                   pressBoxX := startX + (boxWidth + boxMargin) * 2,
                   boxY := topMargin + c_div (screenH s1 - topMargin - boxHeight) 2\<rparr>;
          s3 = emit
            ([FillScreen TFT_BLACK]
             @ drawCenteredText s2 ''CardENV'' 40 2 TFT_CYAN
             @ drawCenteredText s2 ''Initializing...'' 65 1 TFT_WHITE
             @ (if shtBegin b then drawCenteredText s2 ''SHT30: OK'' 85 1 TFT_GREEN
                else drawCenteredText s2 ''SHT30: FAILED'' 85 1 TFT_RED)
             @ (if qmpBegin b then drawCenteredText s2 ''QMP6988: OK'' 100 1 TFT_GREEN
                else if qmpBeginAlt b then drawCenteredText s2 ''QMP6988: OK'' 100 1 TFT_GREEN
                else drawCenteredText s2 ''QMP6988: FAILED'' 100 1 TFT_RED)
             @ drawCenteredText s2 ''T:Temp H:Humid P:Press S:Set'' 118 1 TFT_DARKGREY) s2;
          s4 = s3\<lparr>temperature := bootTemp b, humidity := bootHumidity b,
                   pressure := f32 (f64 (bootPressure b / 100))\<rparr>;
          s5 = s4\<lparr>tempHistory := (tempHistory s4)[0 := temperature s4],
                   humidityHistory := (humidityHistory s4)[0 := humidity s4],
                   pressureHistory := (pressureHistory s4)[0 := pressure s4],
                   historyCount := 1, historyIndex := 1\<rparr>
      in s5\<lparr>lastActivityTime := millisActivity b, lastDisplayUpdate := millisDisplay b,
             needsFullRedraw := True\<rparr>)"

subsection \<open>Main loop\<close>

text \<open>What one iteration of \<open>loop()\<close> reads from outside: the keyboard, the clock at each
  of its call sites, the sensors, and the battery at each of the at most two calls of
  \<open>drawBattery\<close>.\<close>

record inputs =
  keyboard :: keys
  millisWake :: u32
  millisTimeout :: u32
  shtTemp :: real
  shtHumidity :: real
  qmpPressure :: real
  millisHistory :: u32
  millisLoop :: u32
  power1 :: power
  power2 :: power

text \<open>The two \<open>switch (currentPage)\<close> statements of \<open>loop()\<close>.\<close>

definition fullRedraw :: "sprintf_fn \<Rightarrow> inputs \<Rightarrow> state \<Rightarrow> state" where
  "fullRedraw spf inp s =
     (if currentPage s = 0 then
        updateMainPageValues spf (power2 inp) (drawMainPageStatic spf (power1 inp) s)
      else if currentPage s = 1 then
        (let s1 = drawGraphPageStatic spf (power1 inp) ''TEMPERATURE'' (tempHistory s)
                    COLOR_TEMP (getTempUnit s) (getDisplayTemp s (temperature s))
                    (useFahrenheit s) s
         in updateGraphValue spf (getDisplayTemp s1 (temperature s1)) COLOR_TEMP
              (getTempUnit s1) ''TEMPERATURE'' s1)
      else if currentPage s = 2 then
        (let s1 = drawGraphPageStatic spf (power1 inp) ''HUMIDITY'' (humidityHistory s)
                    COLOR_HUMIDITY ''%'' (humidity s) False s
         in updateGraphValue spf (humidity s1) COLOR_HUMIDITY ''%'' ''HUMIDITY'' s1)
      else if currentPage s = 3 then
        (let s1 = drawGraphPageStatic spf (power1 inp) ''PRESSURE'' (pressureHistory s)
                    COLOR_PRESSURE ''hPa'' (pressure s) False s
         in updateGraphValue spf (pressure s1) COLOR_PRESSURE ''hPa'' ''PRESSURE'' s1)
      else if currentPage s = 4 then drawSettingsPageStatic spf (power1 inp) s
      else s)"

definition incrementalRedraw :: "sprintf_fn \<Rightarrow> inputs \<Rightarrow> state \<Rightarrow> state" where
  "incrementalRedraw spf inp s =
     (if currentPage s = 0 then updateMainPageValues spf (power1 inp) s
      else if currentPage s = 1 then
        drawBattery spf False (power1 inp)
          (updateGraphValue spf (getDisplayTemp s (temperature s)) COLOR_TEMP (getTempUnit s)
             ''TEMPERATURE'' s)
      else if currentPage s = 2 then
        drawBattery spf False (power1 inp)
          (updateGraphValue spf (humidity s) COLOR_HUMIDITY ''%'' ''HUMIDITY'' s)
      else if currentPage s = 3 then
        drawBattery spf False (power1 inp)
          (updateGraphValue spf (pressure s) COLOR_PRESSURE ''hPa'' ''PRESSURE'' s)
      else if currentPage s = 4 then drawBattery spf False (power1 inp) s
      else s)"

text \<open>The part of \<open>loop()\<close> from \<open>if (screenState != SCREEN_OFF)\<close> on.\<close>

definition render :: "sprintf_fn \<Rightarrow> inputs \<Rightarrow> state \<Rightarrow> state" where
  "render spf inp s =
     (let now = millisLoop inp;
          shouldUpdateDisplay = (now - lastDisplayUpdate s \<ge> displayInterval)
      in if screenState s \<noteq> SCREEN_OFF then
           (if needsFullRedraw s then
              fullRedraw spf inp (s\<lparr>needsFullRedraw := False, lastDisplayUpdate := now\<rparr>)
            else if shouldUpdateDisplay then
              incrementalRedraw spf inp (s\<lparr>lastDisplayUpdate := now\<rparr>)
            else s)
         else s)"

text \<open>The sensor part of \<open>loop()\<close>; \<open>qmp6988.pressure / 100.0\<close> is computed in \<open>double\<close>
  and assigned to a \<open>float\<close>.\<close>

definition readSensors :: "inputs \<Rightarrow> state \<Rightarrow> state" where
  "readSensors inp s =
     s\<lparr>temperature := shtTemp inp, humidity := shtHumidity inp,
       pressure := f32 (f64 (qmpPressure inp / 100))\<rparr>"

definition loop :: "sprintf_fn \<Rightarrow> inputs \<Rightarrow> state \<Rightarrow> state" where
  "loop spf inp s =
     render spf inp
       (updateHistory (millisHistory inp)
          (readSensors inp
             (updateScreenTimeout (millisTimeout inp)
                (handleKeyboard (keyboard inp) (millisWake inp) s))))"

section \<open>Auxiliary notions for the proofs\<close>

text \<open>The ordered read over a bare array, cursor and count.\<close>

definition ringRead :: "'a list \<Rightarrow> int \<Rightarrow> int \<Rightarrow> 'a list" where
  "ringRead h idx cnt = map (\<lambda>i. h ! nat (c_mod (idx - cnt + int i + 60) 60)) [0..<nat cnt]"

text \<open>Test data: sample number \<open>n\<close> is taken at minute \<open>n\<close> and reads \<open>n\<close> degrees.\<close>

definition mkSample :: "nat \<Rightarrow> sample" where
  "mkSample n = \<lparr>atMillis = of_nat n * 60000, cTemp = real n,
                  relHumidity = 40 + real n, hPa = 1000 + real n\<rparr>"

definition ramp :: "nat \<Rightarrow> sample list" where
  "ramp n = map mkSample [1..<Suc n]"

text \<open>The states the sketch can be in at the start of an iteration of \<open>loop()\<close>.\<close>

inductive reachable :: "sprintf_fn \<Rightarrow> state \<Rightarrow> bool" for spf :: sprintf_fn where
  boot: "reachable spf (setup_fn b)"
| step: "reachable spf s \<Longrightarrow> reachable spf (loop spf inp s)"

text \<open>The history variables, and the variables that the drawing code only reads.\<close>

definition hist :: "state \<Rightarrow> real list \<times> real list \<times> real list \<times> int \<times> int \<times> u32" where
  "hist s = (tempHistory s, humidityHistory s, pressureHistory s,
             historyIndex s, historyCount s, lastHistoryUpdate s)"

definition core ::
    "state \<Rightarrow> (real list \<times> real list \<times> real list \<times> int \<times> int \<times> u32)
       \<times> ScreenState \<times> int \<times> int \<times> int \<times> int \<times> u32 \<times> real \<times> real \<times> real \<times> bool" where
  "core s = (hist s, screenState s, screenTimeoutOption s, settingsSelection s,
             normalBrightness s, currentPage s, lastActivityTime s,
             temperature s, humidity s, pressure s, useFahrenheit s)"

text \<open>The clock values at which the iterations of a run stored a sample, and the
  requirement that each lies at least \<open>historyInterval\<close> after the one before.\<close>

fun appendLog :: "sprintf_fn \<Rightarrow> inputs list \<Rightarrow> state \<Rightarrow> u32 list" where
  "appendLog spf [] s = []"
| "appendLog spf (inp # ins) s =
     (if historyIndex (loop spf inp s) \<noteq> historyIndex s then [millisHistory inp] else [])
     @ appendLog spf ins (loop spf inp s)"

fun gaps_ok :: "u32 \<Rightarrow> u32 list \<Rightarrow> bool" where
  "gaps_ok prev [] = True"
| "gaps_ok prev (t # ts) = (t - prev \<ge> historyInterval \<and> gaps_ok t ts)"

text \<open>The settings cursor and the timeout option are one of 0, 1, 2.\<close>

definition settings_ok :: "state \<Rightarrow> bool" where
  "settings_ok s \<longleftrightarrow>
     settingsSelection s \<in> {0, 1, 2} \<and> screenTimeoutOption s \<in> {0, 1, 2}"

text \<open>Operations that only set the backlight.\<close>

fun isBrightness :: "display_op \<Rightarrow> bool" where
  "isBrightness (SetBrightness b) = True"
| "isBrightness _ = False"

text \<open>The operations issued on the display between an earlier state and a later one.\<close>

definition issued :: "state \<Rightarrow> state \<Rightarrow> display_op list" where
  "issued s s' = drop (length (display s)) (display s')"

text \<open>Test inputs: an idle iteration at clock value \<open>t\<close>, and one in which the keys of
  \<open>w\<close> are pressed.\<close>

definition power0 :: power where
  "power0 = \<lparr>batteryLevel = 80, isCharging = False, flashMillis = 0\<rparr>"

definition idle :: "u32 \<Rightarrow> inputs" where
  "idle t = \<lparr>keyboard = \<lparr>isChange = False, isPressed = False, keysWord = []\<rparr>,
             millisWake = t, millisTimeout = t, shtTemp = 21.5, shtHumidity = 40,
             qmpPressure = 101300, millisHistory = t, millisLoop = t,
             power1 = power0, power2 = power0\<rparr>"

definition press :: "string \<Rightarrow> u32 \<Rightarrow> inputs" where
  "press w t = (idle t)\<lparr>keyboard := \<lparr>isChange = True, isPressed = True, keysWord = w\<rparr>\<rparr>"

text \<open>Two samples whose temperatures are the \<open>float\<close>s nearest to 0.3 and 2.3.\<close>

definition edgeSamples :: "sample list" where
  "edgeSamples =
     [\<lparr>atMillis = 60000, cTemp = f32 0.3, relHumidity = 40, hPa = 1013\<rparr>,
      \<lparr>atMillis = 120000, cTemp = f32 2.3, relHumidity = 40, hPa = 1013\<rparr>]"

definition edgeState :: state where
  "edgeState = appendAll edgeSamples globals0"

definition boot0 :: boot where
  "boot0 = \<lparr>dispWidth = 240, dispHeight = 135, shtBegin = True, qmpBegin = True,
             qmpBeginAlt = False, bootTemp = 21.5, bootHumidity = 40, bootPressure = 101300,
             millisActivity = 2600, millisDisplay = 2600\<rparr>"

definition spf0 :: sprintf_fn where
  "spf0 format args = format"

section \<open>History ring buffer: proofs\<close>

lemma c_mod_nonneg: "0 \<le> a \<Longrightarrow> 0 < b \<Longrightarrow> c_mod a b = a mod b"
  by (simp add: c_mod_def c_div_def sgn_if minus_mult_div_eq_mod)

lemma mod60_small: "0 \<le> (x::int) \<Longrightarrow> x < 120 \<Longrightarrow> x mod 60 = (if x < 60 then x else x - 60)"
proof (cases "x < 60")
  case True
  assume "0 \<le> x"
  with True show ?thesis by simp
next
  case False
  assume "x < 120"
  have "x mod 60 = (x - 60) mod 60" by simp
  also have "\<dots> = x - 60" using False \<open>x < 120\<close> by (intro mod_pos_pos_trivial) auto
  finally show ?thesis using False by simp
qed

lemma ringRead_nth:
  assumes "0 \<le> idx" "idx < 60" "0 \<le> cnt" "cnt \<le> 60" "i < nat cnt"
  shows "ringRead h idx cnt ! i = h ! nat (if idx - cnt + int i < 0 then idx - cnt + int i + 60 else idx - cnt + int i)"
proof -
  have "c_mod (idx - cnt + int i + 60) 60 = (idx - cnt + int i + 60) mod 60"
    using assms by (intro c_mod_nonneg) auto
  also have "\<dots> = (if idx - cnt + int i < 0 then idx - cnt + int i + 60 else idx - cnt + int i)"
    using assms by (subst mod60_small) auto
  finally show ?thesis using assms by (simp add: ringRead_def)
qed

lemma length_ringRead: "length (ringRead h idx cnt) = nat cnt"
  by (simp add: ringRead_def)

lemma ringRead_step:
  assumes len: "length h = 60" and idx: "0 \<le> idx" "idx < 60" and cnt: "0 \<le> cnt" "cnt \<le> 60"
    and idx': "idx' = (if idx = 59 then 0 else idx + 1)"
    and cnt': "cnt' = (if cnt < 60 then cnt + 1 else 60)"
  shows "ringRead (h[nat idx := v]) idx' cnt' = drop (nat cnt + 1 - 60) (ringRead h idx cnt @ [v])"
proof (rule nth_equalityI)
  show "length (ringRead (h[nat idx := v]) idx' cnt') = length (drop (nat cnt + 1 - 60) (ringRead h idx cnt @ [v]))"
    using cnt cnt' by (auto simp: length_ringRead)
next
  fix i assume "i < length (ringRead (h[nat idx := v]) idx' cnt')"
  then have i: "i < nat cnt'" by (simp add: length_ringRead)
  have b: "0 \<le> idx'" "idx' < 60" "0 \<le> cnt'" "cnt' \<le> 60"
    using idx cnt idx' cnt' by auto
  note L = ringRead_nth [OF b i, of "h[nat idx := v]"]
  show "ringRead (h[nat idx := v]) idx' cnt' ! i = drop (nat cnt + 1 - 60) (ringRead h idx cnt @ [v]) ! i"
  proof (cases "cnt < 60")
    case True
    show ?thesis
    proof (cases "i < nat cnt")
      case True
      note R = ringRead_nth [OF idx cnt True, of h]
      have "drop (nat cnt + 1 - 60) (ringRead h idx cnt @ [v]) ! i = ringRead h idx cnt ! i"
        using True \<open>cnt < 60\<close> by (simp add: nth_append length_ringRead)
      then show ?thesis unfolding L R using True \<open>cnt < 60\<close> idx cnt len idx' cnt'
        by (auto simp: nth_list_update algebra_simps)
    next
      case False
      then have ic: "int i = cnt" using i True cnt cnt' by auto
      have "drop (nat cnt + 1 - 60) (ringRead h idx cnt @ [v]) ! i = v"
        using ic \<open>cnt < 60\<close> by (auto simp add: nth_append length_ringRead)
      then show ?thesis unfolding L using ic \<open>cnt < 60\<close> idx cnt len idx' cnt'
        by (auto simp: nth_list_update algebra_simps)
    qed
  next
    case False
    then have c: "cnt = 60" using cnt by simp
    show ?thesis
    proof (cases "i < 59")
      case True
      then have si: "Suc i < nat cnt" using c by simp
      note R = ringRead_nth [OF idx cnt si, of h]
      have "drop (nat cnt + 1 - 60) (ringRead h idx cnt @ [v]) ! i = ringRead h idx cnt ! Suc i"
        using True c by (simp add: nth_append length_ringRead)
      then show ?thesis unfolding L R using True c idx len idx' cnt'
        by (auto simp: nth_list_update algebra_simps)
    next
      case False
      then have i59: "i = 59" using i c cnt' by simp
      have "drop (nat cnt + 1 - 60) (ringRead h idx cnt @ [v]) ! i = v"
        using i59 c by (simp add: nth_append length_ringRead)
      then show ?thesis unfolding L using i59 c idx len idx' cnt'
        by (auto simp: nth_list_update algebra_simps)
    qed
  qed
qed

lemma readOrdered_ringRead: "readOrdered s h = ringRead h (historyIndex s) (historyCount s)"
  by (simp add: readOrdered_def ringRead_def histIdx_def historySize_def)

lemma c_mod_succ60: "0 \<le> idx \<Longrightarrow> idx < 60 \<Longrightarrow> c_mod (idx + 1) 60 = (if idx = 59 then 0 else idx + 1)"
  by (simp add: c_mod_nonneg mod60_small)

lemma ring_inv_appendSample: "ring_inv s \<Longrightarrow> ring_inv (appendSample v s)"
  by (auto simp: ring_inv_def appendSample_def storeSample_def historySize_def c_mod_succ60)

lemma ring_inv_appendAll: "ring_inv s \<Longrightarrow> ring_inv (appendAll vs s)"
  unfolding appendAll_def by (induction vs arbitrary: s) (simp_all add: ring_inv_appendSample)

lemma read_appendSample:
  assumes "ring_inv s"
  shows "readOrdered (appendSample v s) (tempHistory (appendSample v s))
           = drop (nat (historyCount s) + 1 - 60) (readOrdered s (tempHistory s) @ [cTemp v])"
    and "readOrdered (appendSample v s) (humidityHistory (appendSample v s))
           = drop (nat (historyCount s) + 1 - 60) (readOrdered s (humidityHistory s) @ [relHumidity v])"
    and "readOrdered (appendSample v s) (pressureHistory (appendSample v s))
           = drop (nat (historyCount s) + 1 - 60) (readOrdered s (pressureHistory s) @ [hPa v])"
proof -
  have b: "0 \<le> historyIndex s" "historyIndex s < 60" "0 \<le> historyCount s" "historyCount s \<le> 60"
    and l: "length (tempHistory s) = 60" "length (humidityHistory s) = 60"
      "length (pressureHistory s) = 60"
    using assms by (simp_all add: ring_inv_def historySize_def)
  have i: "historyIndex (appendSample v s) = (if historyIndex s = 59 then 0 else historyIndex s + 1)"
    using b by (simp add: appendSample_def storeSample_def historySize_def c_mod_succ60)
  have c: "historyCount (appendSample v s) = (if historyCount s < 60 then historyCount s + 1 else 60)"
    using b by (simp add: appendSample_def storeSample_def historySize_def)
  have h: "tempHistory (appendSample v s) = (tempHistory s)[nat (historyIndex s) := cTemp v]"
    "humidityHistory (appendSample v s) = (humidityHistory s)[nat (historyIndex s) := relHumidity v]"
    "pressureHistory (appendSample v s) = (pressureHistory s)[nat (historyIndex s) := hPa v]"
    by (simp_all add: appendSample_def storeSample_def)
  show "readOrdered (appendSample v s) (tempHistory (appendSample v s))
           = drop (nat (historyCount s) + 1 - 60) (readOrdered s (tempHistory s) @ [cTemp v])"
    unfolding readOrdered_ringRead h by (rule ringRead_step [OF l(1) b i c])
  show "readOrdered (appendSample v s) (humidityHistory (appendSample v s))
           = drop (nat (historyCount s) + 1 - 60) (readOrdered s (humidityHistory s) @ [relHumidity v])"
    unfolding readOrdered_ringRead h by (rule ringRead_step [OF l(2) b i c])
  show "readOrdered (appendSample v s) (pressureHistory (appendSample v s))
           = drop (nat (historyCount s) + 1 - 60) (readOrdered s (pressureHistory s) @ [hPa v])"
    unfolding readOrdered_ringRead h by (rule ringRead_step [OF l(3) b i c])
qed

lemma length_readOrdered: "length (readOrdered s h) = nat (historyCount s)"
  by (simp add: readOrdered_def)

lemma drop_window:
  assumes "length R \<le> 60"
  shows "drop (min (length R + 1) 60 + n - 60) (drop (length R + 1 - 60) (R @ [x]) @ ys)
       = drop (length R + Suc n - 60) (R @ x # ys)"
proof (cases "length R < 60")
  case True
  then have "min (length R + 1) 60 = length R + 1" "length R + 1 - 60 = 0" by simp_all
  then show ?thesis by simp
next
  case False
  then have l: "length R = 60" using assms by simp
  have "drop (length R + 1 - 60) (R @ [x]) @ ys = drop 1 (R @ x # ys)"
    using l by simp
  then show ?thesis using l by simp
qed

lemma read_appendAll_gen:
  assumes step: "\<And>v s. ring_inv s \<Longrightarrow>
      readOrdered (appendSample v s) (sel (appendSample v s))
        = drop (nat (historyCount s) + 1 - 60) (readOrdered s (sel s) @ [val v])"
  shows "ring_inv s \<Longrightarrow> readOrdered (appendAll vs s) (sel (appendAll vs s))
        = drop (nat (historyCount s) + length vs - 60) (readOrdered s (sel s) @ map val vs)"
proof (induction vs arbitrary: s)
  case Nil
  then have "nat (historyCount s) \<le> 60" unfolding ring_inv_def historySize_def by linarith
  then show ?case by (simp add: appendAll_def)
next
  case (Cons v vs)
  let ?s1 = "appendSample v s"
  have inv1: "ring_inv ?s1" using Cons.prems by (rule ring_inv_appendSample)
  have cnt1: "nat (historyCount ?s1) = min (nat (historyCount s) + 1) 60"
    using Cons.prems by (auto simp: appendSample_def storeSample_def ring_inv_def historySize_def)
  have "readOrdered (appendAll (v # vs) s) (sel (appendAll (v # vs) s))
      = readOrdered (appendAll vs ?s1) (sel (appendAll vs ?s1))"
    by (simp add: appendAll_def)
  also have "\<dots> = drop (nat (historyCount ?s1) + length vs - 60) (readOrdered ?s1 (sel ?s1) @ map val vs)"
    by (rule Cons.IH [OF inv1])
  also have "\<dots> = drop (nat (historyCount s) + length (v # vs) - 60) (readOrdered s (sel s) @ map val (v # vs))"
  proof -
    have "length (readOrdered s (sel s)) \<le> 60"
      using Cons.prems unfolding length_readOrdered ring_inv_def historySize_def by linarith
    from drop_window [OF this, of "length vs" "val v" "map val vs"]
    show ?thesis by (simp add: step [OF Cons.prems] cnt1 length_readOrdered)
  qed
  finally show ?case .
qed


lemma readOrdered_empty: "historyCount s = 0 \<Longrightarrow> readOrdered s h = []"
  by (simp add: readOrdered_def)

text \<open>
  Claim C1. Whatever samples are appended to a ring buffer in bounds, the ordered read
  of each of the three histories afterwards is the old ordered read followed by the
  appended values, oldest first, cut down to its last 60 entries; its length is the
  smaller of the number of entries and 60. Starting from an empty buffer, it is the last
  \<open>min n 60\<close> of the \<open>n\<close> appended values in the order of the appends. One append
  writes the slot under the cursor, moves the cursor by one modulo 60 and adds one to the
  count unless the count is 60 already.
\<close>

theorem history_read_after_appends:
  assumes "ring_inv s"
  shows "readOrdered (appendAll vs s) (tempHistory (appendAll vs s))
           = drop (nat (historyCount s) + length vs - 60)
               (readOrdered s (tempHistory s) @ map cTemp vs)
       \<and> readOrdered (appendAll vs s) (humidityHistory (appendAll vs s))
           = drop (nat (historyCount s) + length vs - 60)
               (readOrdered s (humidityHistory s) @ map relHumidity vs)
       \<and> readOrdered (appendAll vs s) (pressureHistory (appendAll vs s))
           = drop (nat (historyCount s) + length vs - 60)
               (readOrdered s (pressureHistory s) @ map hPa vs)
       \<and> length (readOrdered (appendAll vs s) h) = min (nat (historyCount s) + length vs) 60
       \<and> (historyCount s = 0 \<longrightarrow>
            readOrdered (appendAll vs s) (tempHistory (appendAll vs s))
              = drop (length vs - 60) (map cTemp vs)
          \<and> length (readOrdered (appendAll vs s) h) = min (length vs) 60)
       \<and> tempHistory (appendSample v s) = (tempHistory s)[nat (historyIndex s) := cTemp v]
       \<and> humidityHistory (appendSample v s)
           = (humidityHistory s)[nat (historyIndex s) := relHumidity v]
       \<and> pressureHistory (appendSample v s) = (pressureHistory s)[nat (historyIndex s) := hPa v]
       \<and> tempHistory (appendSample v s) ! nat (historyIndex s) = cTemp v
       \<and> historyIndex (appendSample v s) = (historyIndex s + 1) mod 60
       \<and> historyCount (appendSample v s) = min (historyCount s + 1) 60"
proof -
  have b: "0 \<le> historyIndex s" "historyIndex s < 60" "0 \<le> historyCount s" "historyCount s \<le> 60"
    "length (tempHistory s) = 60"
    using assms by (simp_all add: ring_inv_def historySize_def)
  have t: "readOrdered (appendAll vs s) (tempHistory (appendAll vs s))
           = drop (nat (historyCount s) + length vs - 60)
               (readOrdered s (tempHistory s) @ map cTemp vs)"
    by (rule read_appendAll_gen [OF read_appendSample(1) assms])
  have h: "readOrdered (appendAll vs s) (humidityHistory (appendAll vs s))
           = drop (nat (historyCount s) + length vs - 60)
               (readOrdered s (humidityHistory s) @ map relHumidity vs)"
    by (rule read_appendAll_gen [OF read_appendSample(2) assms])
  have p: "readOrdered (appendAll vs s) (pressureHistory (appendAll vs s))
           = drop (nat (historyCount s) + length vs - 60)
               (readOrdered s (pressureHistory s) @ map hPa vs)"
    by (rule read_appendAll_gen [OF read_appendSample(3) assms])
  have "length (readOrdered (appendAll vs s) h)
          = length (readOrdered (appendAll vs s) (tempHistory (appendAll vs s)))"
    by (simp add: length_readOrdered)
  also have "\<dots> = min (nat (historyCount s) + length vs) 60"
    unfolding t by (simp add: length_readOrdered)
  finally have l: "length (readOrdered (appendAll vs s) h) = min (nat (historyCount s) + length vs) 60" .
  have e: "historyCount s = 0 \<longrightarrow>
            readOrdered (appendAll vs s) (tempHistory (appendAll vs s))
              = drop (length vs - 60) (map cTemp vs)
          \<and> length (readOrdered (appendAll vs s) h) = min (length vs) 60"
    using t l by (simp add: readOrdered_empty)
  have a: "tempHistory (appendSample v s) = (tempHistory s)[nat (historyIndex s) := cTemp v]"
    "humidityHistory (appendSample v s) = (humidityHistory s)[nat (historyIndex s) := relHumidity v]"
    "pressureHistory (appendSample v s) = (pressureHistory s)[nat (historyIndex s) := hPa v]"
    by (simp_all add: appendSample_def storeSample_def)
  have w: "tempHistory (appendSample v s) ! nat (historyIndex s) = cTemp v"
    using b by (simp add: a)
  have i: "historyIndex (appendSample v s) = (historyIndex s + 1) mod 60"
    using b by (simp add: appendSample_def storeSample_def historySize_def c_mod_nonneg)
  have c: "historyCount (appendSample v s) = min (historyCount s + 1) 60"
    using b by (simp add: appendSample_def storeSample_def historySize_def)
  show ?thesis using t h p l e a w i c by blast
qed

lemma ring_inv_globals0: "ring_inv globals0"
  by (simp add: ring_inv_def globals0_def historySize_def)

theorem history_read_after_appends_witness:
  "ring_inv globals0 \<and> historyCount globals0 = 0
   \<and> readOrdered (appendAll (ramp 3) globals0) (tempHistory (appendAll (ramp 3) globals0))
       = [1, 2, 3]
   \<and> length (readOrdered (appendAll (ramp 3) globals0) (humidityHistory globals0)) = 3"
proof -
  have r: "ramp 3 = [mkSample 1, mkSample 2, mkSample 3]"
    by (simp add: ramp_def upt_conv_Cons numeral_eq_Suc)
  have c: "historyCount globals0 = 0" by (simp add: globals0_def)
  from history_read_after_appends [OF ring_inv_globals0, of "ramp 3" "humidityHistory globals0"]
  have "historyCount globals0 = 0 \<longrightarrow>
          readOrdered (appendAll (ramp 3) globals0) (tempHistory (appendAll (ramp 3) globals0))
            = drop (length (ramp 3) - 60) (map cTemp (ramp 3))
        \<and> length (readOrdered (appendAll (ramp 3) globals0) (humidityHistory globals0))
            = min (length (ramp 3)) 60"
    by blast
  then show ?thesis using c
    by (simp add: ring_inv_globals0 r mkSample_def)
qed


lemma appendAll_snoc: "appendAll (xs @ [v]) s = appendSample v (appendAll xs s)"
  by (simp add: appendAll_def)

lemma historyIndex_appendAll:
  "ring_inv s \<Longrightarrow> historyIndex (appendAll vs s) = (historyIndex s + int (length vs)) mod 60"
proof (induction vs arbitrary: s)
  case Nil
  then show ?case by (simp add: appendAll_def ring_inv_def historySize_def)
next
  case (Cons v vs)
  have i: "historyIndex (appendSample v s) = (historyIndex s + 1) mod 60"
    using Cons.prems
    by (simp add: appendSample_def storeSample_def historySize_def c_mod_nonneg ring_inv_def)
  have "historyIndex (appendAll (v # vs) s) = historyIndex (appendAll vs (appendSample v s))"
    by (simp add: appendAll_def)
  also have "\<dots> = ((historyIndex s + 1) mod 60 + int (length vs)) mod 60"
    using Cons.IH [OF ring_inv_appendSample [OF Cons.prems]] by (simp add: i)
  also have "\<dots> = (historyIndex s + 1 + int (length vs)) mod 60"
    by (rule mod_add_left_eq)
  also have "\<dots> = (historyIndex s + int (length (v # vs))) mod 60"
    by (simp add: ac_simps)
  finally show ?case .
qed

text \<open>
  Claim C2. After exactly 61 appends to an empty ring buffer the ordered read is the
  second to the 61st appended value, in that order: the first appended value is gone
  (its slot now holds the 61st value) and the 61st is the last entry read.
\<close>

theorem fifo_overwrite_after_61:
  assumes inv: "ring_inv s" and empty: "historyCount s = 0" and len: "length vs = 61"
  shows "readOrdered (appendAll vs s) (tempHistory (appendAll vs s)) = map cTemp (tl vs)
       \<and> readOrdered (appendAll vs s) (humidityHistory (appendAll vs s)) = map relHumidity (tl vs)
       \<and> readOrdered (appendAll vs s) (pressureHistory (appendAll vs s)) = map hPa (tl vs)
       \<and> length (readOrdered (appendAll vs s) (tempHistory (appendAll vs s))) = 60
       \<and> last (readOrdered (appendAll vs s) (tempHistory (appendAll vs s))) = cTemp (vs ! 60)
       \<and> (\<forall>i<60. readOrdered (appendAll vs s) (tempHistory (appendAll vs s)) ! i
                    = cTemp (vs ! Suc i))
       \<and> (cTemp (vs ! 0) \<notin> set (map cTemp (tl vs)) \<longrightarrow>
            cTemp (vs ! 0) \<notin> set (readOrdered (appendAll vs s) (tempHistory (appendAll vs s))))
       \<and> tempHistory (appendAll vs s) ! nat (historyIndex s) = cTemp (vs ! 60)"
proof -
  have d: "drop (nat (historyCount s) + length vs - 60) xs = tl xs" for xs :: "real list"
    using empty len by (simp add: drop_Suc)
  have t: "readOrdered (appendAll vs s) (tempHistory (appendAll vs s)) = map cTemp (tl vs)"
    using read_appendAll_gen [OF read_appendSample(1) inv, of vs]
    by (simp add: d readOrdered_empty [OF empty] map_tl)
  have h: "readOrdered (appendAll vs s) (humidityHistory (appendAll vs s)) = map relHumidity (tl vs)"
    using read_appendAll_gen [OF read_appendSample(2) inv, of vs]
    by (simp add: d readOrdered_empty [OF empty] map_tl)
  have p: "readOrdered (appendAll vs s) (pressureHistory (appendAll vs s)) = map hPa (tl vs)"
    using read_appendAll_gen [OF read_appendSample(3) inv, of vs]
    by (simp add: d readOrdered_empty [OF empty] map_tl)
  have l: "length (map cTemp (tl vs)) = 60" using len by simp
  have ne: "tl vs \<noteq> []" using len by (cases vs) auto
  have "tl vs ! 59 = vs ! Suc 59" by (rule nth_tl) (simp add: len)
  then have la: "last (map cTemp (tl vs)) = cTemp (vs ! 60)"
    using len ne by (simp add: last_map last_conv_nth)
  have n: "\<forall>i<60. map cTemp (tl vs) ! i = cTemp (vs ! Suc i)"
    using len by (simp add: nth_tl)
  obtain xs v where vs: "vs = xs @ [v]" and lx: "length xs = 60"
    using len by (cases vs rule: rev_cases) auto
  let ?s' = "appendAll xs s"
  have inv': "ring_inv ?s'" using inv by (rule ring_inv_appendAll)
  have "historyIndex ?s' = (historyIndex s + 60) mod 60"
    using historyIndex_appendAll [OF inv, of xs] lx by simp
  also have "\<dots> = historyIndex s"
    using inv by (simp add: ring_inv_def historySize_def)
  finally have ix: "historyIndex ?s' = historyIndex s" .
  have "tempHistory (appendSample v ?s') ! nat (historyIndex ?s') = cTemp v"
    using inv' by (auto simp: appendSample_def storeSample_def ring_inv_def historySize_def)
  then have w: "tempHistory (appendAll vs s) ! nat (historyIndex s) = cTemp (vs ! 60)"
    using lx by (simp add: vs appendAll_snoc ix nth_append)
  show ?thesis unfolding t h p using l la n w by simp
qed

theorem fifo_overwrite_after_61_witness:
  "ring_inv globals0 \<and> historyCount globals0 = 0 \<and> length (ramp 61) = 61
   \<and> readOrdered (appendAll (ramp 61) globals0) (tempHistory (appendAll (ramp 61) globals0))
       = map real [2..<62]
   \<and> cTemp (ramp 61 ! 0) = 1
   \<and> 1 \<notin> set (readOrdered (appendAll (ramp 61) globals0)
                  (tempHistory (appendAll (ramp 61) globals0)))
   \<and> last (readOrdered (appendAll (ramp 61) globals0)
             (tempHistory (appendAll (ramp 61) globals0))) = 61
   \<and> tempHistory (appendAll (ramp 61) globals0) ! 0 = 61"
proof -
  have c: "historyCount globals0 = 0" "historyIndex globals0 = 0" by (simp_all add: globals0_def)
  have l: "length (ramp 61) = 61" by (simp add: ramp_def)
  have r: "map cTemp (tl (ramp 61)) = map real [2..<62]"
    by code_simp
  have f: "cTemp (ramp 61 ! 0) = 1" "cTemp (ramp 61 ! 60) = 61"
    by code_simp+
  have x: "(1::real) \<notin> set (map real [2..<62])" by auto
  have la: "last (map real [2..<62]) = 61" by code_simp
  from fifo_overwrite_after_61 [OF ring_inv_globals0 c(1) l]
  show ?thesis using c l f x la by (simp add: ring_inv_globals0 r)
qed

section \<open>What the functions leave unchanged\<close>

lemma core_emit: "core (emit ops s) = core s"
  by (simp add: core_def hist_def emit_def)

lemma core_drawBattery: "core (drawBattery spf f pw s) = core s"
  by (simp add: drawBattery_def core_def hist_def emit_def Let_def split: prod.splits)

lemma core_drawMainPageStatic: "core (drawMainPageStatic spf pw s) = core s"
proof -
  have "core (drawMainPageStatic spf pw s)
      = core (drawBattery spf True pw (emit [FillScreen TFT_BLACK] s))"
    by (simp add: drawMainPageStatic_def Let_def core_def hist_def emit_def)
  then show ?thesis by (simp add: core_drawBattery core_emit)
qed

lemma core_updateMainPageValues: "core (updateMainPageValues spf pw s) = core s"
  by (simp add: updateMainPageValues_def Let_def core_drawBattery split: prod.splits)
     (simp add: core_def hist_def emit_def)

lemma core_drawGraphPageStatic:
  "core (drawGraphPageStatic spf pw title history color unit currentVal convertToF s) = core s"
proof -
  have "core (drawGraphPageStatic spf pw title history color unit currentVal convertToF s)
      = core (drawBattery spf True pw (emit [FillScreen TFT_BLACK] s))"
    by (simp add: drawGraphPageStatic_def Let_def core_def hist_def emit_def)
  then show ?thesis by (simp add: core_drawBattery core_emit)
qed

lemma core_updateGraphValue: "core (updateGraphValue spf value color unit title s) = core s"
  by (simp add: updateGraphValue_def Let_def core_def hist_def emit_def)

lemma core_drawSettingsPageStatic: "core (drawSettingsPageStatic spf pw s) = core s"
  unfolding drawSettingsPageStatic_def Let_def by (simp only: core_emit core_drawBattery)

lemma core_upd:
  "core (s\<lparr>needsFullRedraw := a\<rparr>) = core s"
  "core (s\<lparr>lastDisplayUpdate := b\<rparr>) = core s"
  by (simp_all add: core_def hist_def)

lemma core_fullRedraw: "core (fullRedraw spf inp s) = core s"
  by (simp add: fullRedraw_def Let_def core_drawMainPageStatic core_updateMainPageValues
        core_drawGraphPageStatic core_updateGraphValue core_drawSettingsPageStatic)

lemma core_incrementalRedraw: "core (incrementalRedraw spf inp s) = core s"
  by (simp add: incrementalRedraw_def core_drawBattery core_updateMainPageValues
        core_updateGraphValue)

lemma core_render: "core (render spf inp s) = core s"
  by (simp add: render_def Let_def core_fullRedraw core_incrementalRedraw core_upd)


lemma hist_core: "core s = core s' \<Longrightarrow> hist s = hist s'"
  by (simp add: core_def)

lemma hist_wakeScreen: "hist (wakeScreen t s) = hist s"
  by (simp add: wakeScreen_def hist_def emit_def Let_def)

lemma hist_handleKey: "hist (handleKey c s) = hist s"
  by (simp add: handleKey_def hist_def emit_def Let_def)

lemma hist_fold_handleKey: "hist (fold handleKey w s) = hist s"
  by (induction w arbitrary: s) (simp_all add: hist_handleKey)

lemma hist_handleKeyboard: "hist (handleKeyboard kb t s) = hist s"
  by (simp add: handleKeyboard_def hist_fold_handleKey hist_wakeScreen)

lemma hist_updateScreenTimeout: "hist (updateScreenTimeout t s) = hist s"
  by (simp add: updateScreenTimeout_def hist_def emit_def Let_def)

lemma hist_readSensors: "hist (readSensors inp s) = hist s"
  by (simp add: readSensors_def hist_def)

lemma hist_updateHistory_cong:
  assumes "hist s = hist s'"
  shows "hist (updateHistory t (readSensors inp s)) = hist (updateHistory t (readSensors inp s'))"
  using assms by (simp add: updateHistory_def storeSample_def readSensors_def hist_def)

lemma hist_loop:
  "hist (loop spf inp s) = hist (updateHistory (millisHistory inp) (readSensors inp s))"
proof -
  have "hist (loop spf inp s)
      = hist (updateHistory (millisHistory inp) (readSensors inp
                (updateScreenTimeout (millisTimeout inp)
                   (handleKeyboard (keyboard inp) (millisWake inp) s))))"
    unfolding loop_def by (rule hist_core [OF core_render])
  also have "\<dots> = hist (updateHistory (millisHistory inp) (readSensors inp s))"
    by (rule hist_updateHistory_cong) (simp add: hist_updateScreenTimeout hist_handleKeyboard)
  finally show ?thesis .
qed

lemma ring_inv_hist: "hist s = hist s' \<Longrightarrow> ring_inv s = ring_inv s'"
  by (simp add: hist_def ring_inv_def)

lemma ring_inv_storeSample: "ring_inv s \<Longrightarrow> ring_inv (storeSample t s)"
  by (auto simp: ring_inv_def storeSample_def historySize_def c_mod_succ60)

lemma ring_inv_updateHistory: "ring_inv s \<Longrightarrow> ring_inv (updateHistory t s)"
  by (simp add: updateHistory_def ring_inv_storeSample)

lemma count_storeSample: "ring_inv s \<Longrightarrow> 1 \<le> historyCount (storeSample t s)"
  by (auto simp: ring_inv_def storeSample_def historySize_def)

lemma count_updateHistory:
  "ring_inv s \<Longrightarrow> 1 \<le> historyCount s \<Longrightarrow> 1 \<le> historyCount (updateHistory t s)"
  by (auto simp: updateHistory_def count_storeSample)

lemma ring_inv_loop: "ring_inv s \<Longrightarrow> ring_inv (loop spf inp s)"
proof -
  assume "ring_inv s"
  then have "ring_inv (readSensors inp s)"
    using ring_inv_hist [OF hist_readSensors] by simp
  then have "ring_inv (updateHistory (millisHistory inp) (readSensors inp s))"
    by (rule ring_inv_updateHistory)
  then show ?thesis using ring_inv_hist [OF hist_loop] by simp
qed

lemma count_loop:
  assumes "ring_inv s" "1 \<le> historyCount s"
  shows "1 \<le> historyCount (loop spf inp s)"
proof -
  have r: "ring_inv (readSensors inp s)"
    using assms(1) ring_inv_hist [OF hist_readSensors] by simp
  have "1 \<le> historyCount (readSensors inp s)"
    using assms(2) by (simp add: readSensors_def)
  then have "1 \<le> historyCount (updateHistory (millisHistory inp) (readSensors inp s))"
    by (rule count_updateHistory [OF r])
  moreover have "historyCount (loop spf inp s)
      = historyCount (updateHistory (millisHistory inp) (readSensors inp s))"
    using hist_loop [of spf inp s] by (simp add: hist_def)
  ultimately show ?thesis by simp
qed

lemma ring_inv_setup: "ring_inv (setup_fn b)" "historyCount (setup_fn b) = 1"
  by (simp_all add: setup_fn_def Let_def globals0_def emit_def ring_inv_def historySize_def)

lemma reachable_ring: "reachable spf s \<Longrightarrow> ring_inv s \<and> 1 \<le> historyCount s"
proof (induction rule: reachable.induct)
  case (boot b)
  show ?case by (simp add: ring_inv_setup)
next
  case (step s inp)
  then show ?case by (simp add: ring_inv_loop count_loop)
qed

lemma histIdx_bounds:
  assumes "ring_inv s" "0 \<le> i" "i < historyCount s"
  shows "0 \<le> histIdx s i" "histIdx s i < 60"
proof -
  have b: "0 \<le> historyIndex s" "historyIndex s < 60" "historyCount s \<le> 60"
    using assms(1) by (simp_all add: ring_inv_def historySize_def)
  have e: "histIdx s i = (historyIndex s - historyCount s + i + 60) mod 60"
    unfolding histIdx_def historySize_def using b assms(2) by (intro c_mod_nonneg) auto
  show "0 \<le> histIdx s i" "histIdx s i < 60" unfolding e by simp_all
qed

section \<open>Ring buffer bounds\<close>

text \<open>
  Claim C10. A store into the history, and \<open>updateHistory\<close> as a whole, keep the cursor
  in \<open>0..59\<close>, the count in \<open>0..60\<close> and the three arrays at 60 elements; after a store
  the count is at least 1, and it never falls back. \<open>setup()\<close> establishes these bounds
  with count 1, so every state the sketch reaches has them. Under them the write index
  and every read index \<open>(historyIndex - historyCount + i + 60) % 60\<close> for
  \<open>0 \<le> i < historyCount\<close> lie inside the three arrays.
\<close>

theorem ring_buffer_bounds:
  "(ring_inv s \<longrightarrow>
        ring_inv (storeSample now s) \<and> ring_inv (updateHistory now s)
      \<and> 1 \<le> historyCount (storeSample now s)
      \<and> (1 \<le> historyCount s \<longrightarrow> 1 \<le> historyCount (updateHistory now s))
      \<and> nat (historyIndex s) < length (tempHistory s)
      \<and> nat (historyIndex s) < length (humidityHistory s)
      \<and> nat (historyIndex s) < length (pressureHistory s)
      \<and> (\<forall>i. 0 \<le> i \<and> i < historyCount s \<longrightarrow>
              histIdx s i = (historyIndex s - historyCount s + i + 60) mod 60
            \<and> 0 \<le> histIdx s i \<and> histIdx s i < 60
            \<and> nat (histIdx s i) < length (tempHistory s)
            \<and> nat (histIdx s i) < length (humidityHistory s)
            \<and> nat (histIdx s i) < length (pressureHistory s)))
   \<and> ring_inv (setup_fn b) \<and> historyCount (setup_fn b) = 1
   \<and> (reachable spf s' \<longrightarrow> ring_inv s' \<and> 1 \<le> historyCount s')"
proof -
  have A: "nat (historyIndex s) < length (tempHistory s)
      \<and> nat (historyIndex s) < length (humidityHistory s)
      \<and> nat (historyIndex s) < length (pressureHistory s)" if "ring_inv s"
    using that by (auto simp: ring_inv_def historySize_def)
  have B: "histIdx s i = (historyIndex s - historyCount s + i + 60) mod 60
            \<and> 0 \<le> histIdx s i \<and> histIdx s i < 60
            \<and> nat (histIdx s i) < length (tempHistory s)
            \<and> nat (histIdx s i) < length (humidityHistory s)
            \<and> nat (histIdx s i) < length (pressureHistory s)"
    if inv: "ring_inv s" and i: "0 \<le> i" "i < historyCount s" for i
  proof -
    have b: "0 \<le> historyIndex s" "historyCount s \<le> 60"
      and l: "length (tempHistory s) = 60" "length (humidityHistory s) = 60"
        "length (pressureHistory s) = 60"
      using inv by (simp_all add: ring_inv_def historySize_def)
    have e: "histIdx s i = (historyIndex s - historyCount s + i + 60) mod 60"
      unfolding histIdx_def historySize_def using b i by (intro c_mod_nonneg) auto
    have "nat (histIdx s i) < 60"
      using histIdx_bounds [OF inv i] by linarith
    then show ?thesis using e histIdx_bounds [OF inv i] l by simp
  qed
  have C: "reachable spf s' \<longrightarrow> ring_inv s' \<and> 1 \<le> historyCount s'"
    using reachable_ring by blast
  have D: "ring_inv s \<longrightarrow> (1 \<le> historyCount s \<longrightarrow> 1 \<le> historyCount (updateHistory now s))"
    using count_updateHistory by blast
  show ?thesis
    apply (intro conjI impI allI)
    using A B C D ring_inv_storeSample ring_inv_updateHistory count_storeSample ring_inv_setup
    apply blast+
    done
qed

theorem ring_buffer_bounds_witness:
  "ring_inv (setup_fn boot0) \<and> 1 \<le> historyCount (setup_fn boot0)
   \<and> reachable spf0 (loop spf0 (idle 3000) (setup_fn boot0))
   \<and> ring_inv (updateHistory 70000 (setup_fn boot0))
   \<and> 1 \<le> historyCount (updateHistory 70000 (setup_fn boot0))
   \<and> histIdx (setup_fn boot0) 0 = 0
   \<and> ring_inv (loop spf0 (idle 3000) (setup_fn boot0))"
proof -
  have r: "reachable spf0 (loop spf0 (idle 3000) (setup_fn boot0))"
    by (intro reachable.intros)
  have c: "historyCount (setup_fn boot0) = 1" "historyIndex (setup_fn boot0) = 1"
    by (simp_all add: setup_fn_def Let_def emit_def globals0_def)
  have i: "ring_inv (setup_fn boot0)" by (rule ring_inv_setup)
  note T = ring_buffer_bounds [of "setup_fn boot0" 70000 boot0 spf0
      "loop spf0 (idle 3000) (setup_fn boot0)"]
  have 1: "ring_inv (updateHistory 70000 (setup_fn boot0))
        \<and> 1 \<le> historyCount (updateHistory 70000 (setup_fn boot0))"
    using T i c by simp
  have "histIdx (setup_fn boot0) 0 = (historyIndex (setup_fn boot0)
          - historyCount (setup_fn boot0) + 0 + 60) mod 60"
    using T i c by simp
  then have 2: "histIdx (setup_fn boot0) 0 = 0" by (simp add: c)
  have 3: "ring_inv (loop spf0 (idle 3000) (setup_fn boot0))"
    using T r by blast
  show ?thesis using i c r 1 2 3 by simp
qed

section \<open>The time gate of the history\<close>

lemma index_moves: "ring_inv s \<Longrightarrow> historyIndex (storeSample t s) \<noteq> historyIndex s"
  by (auto simp: ring_inv_def storeSample_def historySize_def c_mod_succ60)

lemma loop_step_hist:
  assumes "ring_inv s" "1 \<le> historyCount s"
  shows "millisHistory inp - lastHistoryUpdate s \<ge> historyInterval \<Longrightarrow>
           hist (loop spf inp s) = hist (storeSample (millisHistory inp) (readSensors inp s))"
    and "\<not> millisHistory inp - lastHistoryUpdate s \<ge> historyInterval \<Longrightarrow>
           hist (loop spf inp s) = hist s"
  using assms
  by (simp_all add: hist_loop updateHistory_def hist_readSensors)
     (simp_all add: readSensors_def)

lemma loop_step_index:
  assumes "ring_inv s" "1 \<le> historyCount s"
  shows "historyIndex (loop spf inp s) \<noteq> historyIndex s
         \<longleftrightarrow> millisHistory inp - lastHistoryUpdate s \<ge> historyInterval"
proof (cases "millisHistory inp - lastHistoryUpdate s \<ge> historyInterval")
  case True
  have r: "ring_inv (readSensors inp s)"
    using assms(1) ring_inv_hist [OF hist_readSensors] by simp
  have "historyIndex (loop spf inp s)
      = historyIndex (storeSample (millisHistory inp) (readSensors inp s))"
    using loop_step_hist(1) [OF assms True, of spf] by (simp add: hist_def)
  also have "\<dots> \<noteq> historyIndex (readSensors inp s)" by (rule index_moves [OF r])
  finally show ?thesis using True by (simp add: readSensors_def)
next
  case False
  then show ?thesis using loop_step_hist(2) [OF assms False, of spf] by (simp add: hist_def)
qed

lemma gaps_run:
  "reachable spf s \<Longrightarrow> gaps_ok (lastHistoryUpdate s) (appendLog spf ins s)"
proof (induction ins arbitrary: s)
  case Nil
  show ?case by simp
next
  case (Cons inp ins)
  let ?s' = "loop spf inp s"
  have inv: "ring_inv s" "1 \<le> historyCount s"
    using reachable_ring [OF Cons.prems] by simp_all
  have r': "reachable spf ?s'" using Cons.prems by (rule reachable.step)
  note IH = Cons.IH [OF r']
  show ?case
  proof (cases "millisHistory inp - lastHistoryUpdate s \<ge> historyInterval")
    case True
    have "lastHistoryUpdate ?s' = millisHistory inp"
      using loop_step_hist(1) [OF inv True, of spf] by (simp add: hist_def storeSample_def)
    then show ?thesis using True IH loop_step_index [OF inv, of spf inp] by simp
  next
    case False
    have "lastHistoryUpdate ?s' = lastHistoryUpdate s"
      using loop_step_hist(2) [OF inv False, of spf] by (simp add: hist_def)
    then show ?thesis using False IH loop_step_index [OF inv, of spf inp] by simp
  qed
qed

section \<open>Settings indices\<close>

lemma settings_ok_alt:
  "settings_ok s \<longleftrightarrow> 0 \<le> settingsSelection s \<and> settingsSelection s \<le> 2
      \<and> 0 \<le> screenTimeoutOption s \<and> screenTimeoutOption s \<le> 2"
  by (auto simp: settings_ok_def)

lemma settings_ok_handleKey: "settings_ok s \<Longrightarrow> settings_ok (handleKey c s)"
  unfolding settings_ok_alt by (simp add: handleKey_def emit_def Let_def)

lemma settings_ok_fold: "settings_ok s \<Longrightarrow> settings_ok (fold handleKey w s)"
  by (induction w arbitrary: s) (simp_all add: settings_ok_handleKey)

lemma settings_ok_wakeScreen: "settings_ok (wakeScreen t s) = settings_ok s"
  by (simp add: settings_ok_def wakeScreen_def emit_def Let_def)

lemma settings_ok_handleKeyboard: "settings_ok s \<Longrightarrow> settings_ok (handleKeyboard kb t s)"
  by (simp add: handleKeyboard_def settings_ok_fold settings_ok_wakeScreen)

lemma settings_after_keyboard:
  "settingsSelection (loop spf inp s)
     = settingsSelection (handleKeyboard (keyboard inp) (millisWake inp) s)
   \<and> screenTimeoutOption (loop spf inp s)
     = screenTimeoutOption (handleKeyboard (keyboard inp) (millisWake inp) s)"
proof -
  have "core (loop spf inp s)
      = core (updateHistory (millisHistory inp) (readSensors inp
                (updateScreenTimeout (millisTimeout inp)
                   (handleKeyboard (keyboard inp) (millisWake inp) s))))"
    unfolding loop_def by (rule core_render)
  then show ?thesis
    by (simp add: core_def updateHistory_def storeSample_def readSensors_def
          updateScreenTimeout_def emit_def Let_def)
qed

lemma settings_ok_loop: "settings_ok s \<Longrightarrow> settings_ok (loop spf inp s)"
  using settings_ok_handleKeyboard [of s "keyboard inp" "millisWake inp"]
    settings_after_keyboard [of spf inp s]
  by (simp add: settings_ok_def)

lemma settings_ok_setup: "settings_ok (setup_fn b)"
  by (simp add: settings_ok_def setup_fn_def Let_def emit_def globals0_def)

lemma reachable_settings: "reachable spf s \<Longrightarrow> settings_ok s"
  by (induction rule: reachable.induct) (simp_all add: settings_ok_setup settings_ok_loop)

lemma settings_ok_index:
  "settings_ok s \<Longrightarrow> 0 \<le> screenTimeoutOption s \<and> nat (screenTimeoutOption s) < length screenTimeoutValues"
  by (auto simp: settings_ok_def screenTimeoutValues_def)

text \<open>
  Claim C9. When the settings cursor and the timeout option are in \<open>{0, 1, 2}\<close> before
  \<open>handleKeyboard\<close>, they are afterwards; they are after \<open>setup()\<close>, hence in every state
  the sketch reaches and after the keyboard handling of every iteration. The index
  \<open>screenTimeoutOption\<close> that \<open>updateScreenTimeout\<close> then uses is inside the three-element
  table \<open>screenTimeoutValues\<close>.
\<close>

theorem settings_indices_in_range:
  "(settings_ok s \<longrightarrow>
        settings_ok (handleKeyboard kb t s)
      \<and> 0 \<le> screenTimeoutOption (handleKeyboard kb t s)
      \<and> nat (screenTimeoutOption (handleKeyboard kb t s)) < length screenTimeoutValues)
   \<and> length screenTimeoutValues = 3
   \<and> settings_ok (setup_fn b)
   \<and> (reachable spf s' \<longrightarrow>
        settings_ok s'
      \<and> settings_ok (handleKeyboard kb t s')
      \<and> 0 \<le> screenTimeoutOption (handleKeyboard kb t s')
      \<and> nat (screenTimeoutOption (handleKeyboard kb t s')) < length screenTimeoutValues
      \<and> settings_ok (loop spf inp s'))"
proof -
  have A: "settings_ok (handleKeyboard kb t x)
      \<and> 0 \<le> screenTimeoutOption (handleKeyboard kb t x)
      \<and> nat (screenTimeoutOption (handleKeyboard kb t x)) < length screenTimeoutValues"
    if "settings_ok x" for x
    using settings_ok_handleKeyboard [OF that, of kb t]
      settings_ok_index [of "handleKeyboard kb t x"] by simp
  have B: "length screenTimeoutValues = 3" by (simp add: screenTimeoutValues_def)
  show ?thesis
    apply (intro conjI impI)
    using A B settings_ok_setup reachable_settings settings_ok_loop
    apply blast+
    done
qed


theorem settings_indices_in_range_witness:
  "settings_ok (setup_fn boot0) \<and> reachable spf0 (setup_fn boot0)
   \<and> settings_ok (handleKeyboard (keyboard (press ''/'' 3000)) 3000
        ((setup_fn boot0)\<lparr>currentPage := 4, settingsSelection := 2\<rparr>))
   \<and> screenTimeoutOption (handleKeyboard (keyboard (press ''/'' 3000)) 3000
        ((setup_fn boot0)\<lparr>currentPage := 4, settingsSelection := 2\<rparr>)) = 2
   \<and> screenTimeoutOption (handleKeyboard (keyboard (press '',,,'' 3000)) 3000
        ((setup_fn boot0)\<lparr>currentPage := 4, settingsSelection := 2\<rparr>)) = 0
   \<and> settings_ok (loop spf0 (press ''s'' 3000) (setup_fn boot0))"
proof -
  let ?s = "(setup_fn boot0)\<lparr>currentPage := 4, settingsSelection := 2\<rparr>"
  have r: "reachable spf0 (setup_fn boot0)" by (rule reachable.boot)
  have f: "screenState ?s = SCREEN_ON" "currentPage ?s = 4" "settingsSelection ?s = 2"
    "screenTimeoutOption ?s = 2"
    by (simp_all add: setup_fn_def Let_def emit_def globals0_def)
  have o: "settings_ok ?s" by (simp add: settings_ok_def f)
  have e1: "screenTimeoutOption (handleKeyboard (keyboard (press ''/'' 3000)) 3000 ?s) = 2"
    using f by (simp add: press_def idle_def handleKeyboard_def wakeScreen_def handleKey_def Let_def)
  have e2: "screenTimeoutOption (handleKeyboard (keyboard (press '',,,'' 3000)) 3000 ?s) = 0"
    using f by (simp add: press_def idle_def handleKeyboard_def wakeScreen_def handleKey_def Let_def)
  show ?thesis
    using settings_indices_in_range [of ?s "keyboard (press ''/'' 3000)" 3000 boot0 spf0
            "setup_fn boot0" "press ''s'' 3000"] r o e1 e2
    by simp
qed

section \<open>Screen power\<close>

lemma screenState_handleKey: "screenState (handleKey c s) = screenState s"
  by (simp add: handleKey_def emit_def Let_def)

lemma lastActivity_handleKey: "lastActivityTime (handleKey c s) = lastActivityTime s"
  by (simp add: handleKey_def emit_def Let_def)

lemma screenState_fold: "screenState (fold handleKey w s) = screenState s"
  by (induction w arbitrary: s) (simp_all add: screenState_handleKey)

lemma lastActivity_fold: "lastActivityTime (fold handleKey w s) = lastActivityTime s"
  by (induction w arbitrary: s) (simp_all add: lastActivity_handleKey)

lemma wakeScreen_on: "screenState s = SCREEN_ON \<Longrightarrow> wakeScreen t s = s\<lparr>lastActivityTime := t\<rparr>"
  by (simp add: wakeScreen_def Let_def)

lemma wakeScreen_off:
  "screenState s \<noteq> SCREEN_ON \<Longrightarrow>
     wakeScreen t s = s\<lparr>lastActivityTime := t,
                        display := display s @ [SetBrightness (normalBrightness s)],
                        screenState := SCREEN_ON, needsFullRedraw := True\<rparr>"
  by (simp add: wakeScreen_def emit_def Let_def)

lemma screenState_handleKeyboard_on:
  "screenState s = SCREEN_ON \<Longrightarrow> screenState (handleKeyboard kb t s) = SCREEN_ON"
  by (simp add: handleKeyboard_def screenState_fold wakeScreen_on)

lemma updateScreenTimeout_always_on:
  "screenTimeoutOption s = 2 \<Longrightarrow> updateScreenTimeout now s = s"
  by (simp add: updateScreenTimeout_def screenTimeoutValues_def Let_def)

lemma core_pre_render:
  "core (loop spf inp s)
      = core (updateHistory (millisHistory inp) (readSensors inp
                (updateScreenTimeout (millisTimeout inp)
                   (handleKeyboard (keyboard inp) (millisWake inp) s))))"
  unfolding loop_def by (rule core_render)

lemma screenState_loop:
  "screenState (loop spf inp s)
     = screenState (updateScreenTimeout (millisTimeout inp)
                      (handleKeyboard (keyboard inp) (millisWake inp) s))"
  using core_pre_render [of spf inp s]
  by (simp add: core_def updateHistory_def storeSample_def readSensors_def)

text \<open>
  Claim C6. With the timeout option at Always-On (option 2, table entry 0)
  \<open>updateScreenTimeout\<close> changes nothing. The option in force when an iteration of
  \<open>loop()\<close> checks the timeout is the one the keyboard handling of that iteration leaves,
  which is also the one at the end of the iteration: when that option is Always-On and
  the screen was on at the start of the iteration, it is on at its end. In particular an
  iteration without a key press that starts with the screen on and Always-On ends so.
\<close>

theorem always_on_never_sleeps:
  "(screenTimeoutOption s = 2 \<longrightarrow> updateScreenTimeout now s = s)
   \<and> screenTimeoutOption (loop spf inp s)
       = screenTimeoutOption (handleKeyboard (keyboard inp) (millisWake inp) s)
   \<and> (screenState s = SCREEN_ON \<and> screenTimeoutOption (loop spf inp s) = 2 \<longrightarrow>
        screenState (loop spf inp s) = SCREEN_ON)
   \<and> (screenState s = SCREEN_ON \<and> screenTimeoutOption s = 2
        \<and> \<not> (isChange (keyboard inp) \<and> isPressed (keyboard inp)) \<longrightarrow>
        screenState (loop spf inp s) = SCREEN_ON \<and> screenTimeoutOption (loop spf inp s) = 2)"
proof -
  let ?k = "handleKeyboard (keyboard inp) (millisWake inp) s"
  have o: "screenTimeoutOption (loop spf inp s) = screenTimeoutOption ?k"
    using settings_after_keyboard [of spf inp s] by simp
  have A: "screenState (loop spf inp s) = SCREEN_ON"
    if on: "screenState s = SCREEN_ON" and opt: "screenTimeoutOption (loop spf inp s) = 2"
  proof -
    have "screenTimeoutOption ?k = 2" using o opt by simp
    then have "updateScreenTimeout (millisTimeout inp) ?k = ?k"
      by (rule updateScreenTimeout_always_on)
    then show ?thesis
      using screenState_handleKeyboard_on [OF on, of "keyboard inp" "millisWake inp"]
      by (simp add: screenState_loop)
  qed
  have B: "screenState (loop spf inp s) = SCREEN_ON \<and> screenTimeoutOption (loop spf inp s) = 2"
    if on: "screenState s = SCREEN_ON" and opt: "screenTimeoutOption s = 2"
      and idle: "\<not> (isChange (keyboard inp) \<and> isPressed (keyboard inp))"
  proof -
    have "?k = s" using idle by (auto simp: handleKeyboard_def)
    then have "screenTimeoutOption (loop spf inp s) = 2" using o opt by simp
    then show ?thesis using A [OF on] by simp
  qed
  show ?thesis using updateScreenTimeout_always_on o A B by blast
qed

theorem always_on_never_sleeps_witness:
  "screenState (setup_fn boot0) = SCREEN_ON \<and> screenTimeoutOption (setup_fn boot0) = 2
   \<and> screenState (loop spf0 (idle 4000000) (setup_fn boot0)) = SCREEN_ON
   \<and> updateScreenTimeout 4000000 (setup_fn boot0) = setup_fn boot0
   \<and> screenState (updateScreenTimeout 4000000 ((setup_fn boot0)\<lparr>screenTimeoutOption := 0\<rparr>))
       = SCREEN_OFF"
proof -
  have f: "screenState (setup_fn boot0) = SCREEN_ON" "screenTimeoutOption (setup_fn boot0) = 2"
    "lastActivityTime (setup_fn boot0) = 2600"
    by (simp_all add: setup_fn_def Let_def emit_def globals0_def boot0_def)
  have k: "\<not> (isChange (keyboard (idle 4000000)) \<and> isPressed (keyboard (idle 4000000)))"
    by (simp add: idle_def)
  have x: "screenState (updateScreenTimeout 4000000 ((setup_fn boot0)\<lparr>screenTimeoutOption := 0\<rparr>))
       = SCREEN_OFF"
    by (simp add: updateScreenTimeout_def screenTimeoutValues_def Let_def f emit_def)
  show ?thesis
    using always_on_never_sleeps [of "setup_fn boot0" 4000000 spf0 "idle 4000000"] f k x
    by simp
qed

lemma render_off: "screenState s = SCREEN_OFF \<Longrightarrow> render spf inp s = s"
  by (simp add: render_def Let_def)

lemma off_iff: "screenState s \<noteq> SCREEN_ON \<longleftrightarrow> screenState s = SCREEN_OFF"
  by (cases "screenState s") simp_all

lemma updateScreenTimeout_off: "screenState s = SCREEN_OFF \<Longrightarrow> updateScreenTimeout now s = s"
  by (simp add: updateScreenTimeout_def Let_def)

lemma display_handleKey:
  "\<exists>ops. display (handleKey c s) = display s @ ops \<and> list_all isBrightness ops"
  by (simp add: handleKey_def emit_def Let_def)

lemma display_fold:
  "\<exists>ops. display (fold handleKey w s) = display s @ ops \<and> list_all isBrightness ops"
proof (induction w arbitrary: s)
  case Nil
  show ?case by simp
next
  case (Cons c w)
  obtain o1 where 1: "display (handleKey c s) = display s @ o1" "list_all isBrightness o1"
    using display_handleKey by blast
  obtain o2 where 2: "display (fold handleKey w (handleKey c s)) = display (handleKey c s) @ o2"
    "list_all isBrightness o2"
    using Cons.IH by blast
  have "display (fold handleKey (c # w) s) = display s @ (o1 @ o2)" using 1 2 by simp
  moreover have "list_all isBrightness (o1 @ o2)" using 1 2 by simp
  ultimately show ?case by blast
qed

lemma display_wakeScreen:
  "\<exists>ops. display (wakeScreen t s) = display s @ ops \<and> list_all isBrightness ops"
  by (simp add: wakeScreen_def emit_def Let_def)

lemma display_handleKeyboard:
  "\<exists>ops. display (handleKeyboard kb t s) = display s @ ops \<and> list_all isBrightness ops"
proof -
  obtain o1 where 1: "display (wakeScreen t s) = display s @ o1" "list_all isBrightness o1"
    using display_wakeScreen by blast
  obtain o2 where 2: "display (fold handleKey (keysWord kb) (wakeScreen t s))
      = display (wakeScreen t s) @ o2" "list_all isBrightness o2"
    using display_fold by blast
  have 3: "display (fold handleKey (keysWord kb) (wakeScreen t s)) = display s @ (o1 @ o2)"
    "list_all isBrightness (o1 @ o2)"
    using 1 2 by simp_all
  show ?thesis
    unfolding handleKeyboard_def using 1 3 by (auto intro: exI [of _ "[]"])
qed

lemma display_updateScreenTimeout:
  "\<exists>ops. display (updateScreenTimeout t s) = display s @ ops \<and> list_all isBrightness ops"
  by (simp add: updateScreenTimeout_def emit_def Let_def)

lemma display_history: "display (updateHistory t (readSensors inp s)) = display s"
  by (simp add: updateHistory_def storeSample_def readSensors_def)

lemma issuedI:
  "display s' = display s @ ops \<Longrightarrow> list_all isBrightness ops \<Longrightarrow>
     display s' = display s @ issued s s' \<and> list_all isBrightness (issued s s')"
  by (simp add: issued_def)

text \<open>
  Claim C7. With the screen off, the drawing part of \<open>loop()\<close> and \<open>updateScreenTimeout\<close>
  change nothing. An iteration that ends with the screen off has not run the drawing
  part, and everything it issued on the display is a backlight setting. An iteration
  that starts with the screen off and sees no key press issues nothing at all and leaves
  the screen off; a key press in that state does exactly the wake transition, which
  restores the configured brightness and requests a full redraw.
\<close>

theorem screen_off_no_drawing:
  "(screenState s = SCREEN_OFF \<longrightarrow> render spf inp s = s \<and> updateScreenTimeout now s = s)
   \<and> (screenState (loop spf inp s) = SCREEN_OFF \<longrightarrow>
          loop spf inp s
            = updateHistory (millisHistory inp) (readSensors inp
                (updateScreenTimeout (millisTimeout inp)
                   (handleKeyboard (keyboard inp) (millisWake inp) s)))
        \<and> display (loop spf inp s) = display s @ issued s (loop spf inp s)
        \<and> list_all isBrightness (issued s (loop spf inp s)))
   \<and> (screenState s = SCREEN_OFF \<and> \<not> (isChange (keyboard inp) \<and> isPressed (keyboard inp)) \<longrightarrow>
          loop spf inp s = updateHistory (millisHistory inp) (readSensors inp s)
        \<and> screenState (loop spf inp s) = SCREEN_OFF
        \<and> display (loop spf inp s) = display s)
   \<and> (screenState s = SCREEN_OFF \<and> isChange kb \<and> isPressed kb \<longrightarrow>
          handleKeyboard kb t s
            = s\<lparr>lastActivityTime := t,
                 display := display s @ [SetBrightness (normalBrightness s)],
                 screenState := SCREEN_ON, needsFullRedraw := True\<rparr>)"
proof -
  let ?k = "handleKeyboard (keyboard inp) (millisWake inp) s"
  let ?u = "updateScreenTimeout (millisTimeout inp) ?k"
  let ?h = "updateHistory (millisHistory inp) (readSensors inp ?u)"
  have sh: "screenState (updateHistory t' (readSensors inp x)) = screenState x" for t' x
    by (simp add: updateHistory_def storeSample_def readSensors_def)
  have A: "render spf inp s = s \<and> updateScreenTimeout now s = s" if "screenState s = SCREEN_OFF"
    using that by (simp add: render_off updateScreenTimeout_off)
  have B: "loop spf inp s = ?h
        \<and> display (loop spf inp s) = display s @ issued s (loop spf inp s)
        \<and> list_all isBrightness (issued s (loop spf inp s))"
    if off: "screenState (loop spf inp s) = SCREEN_OFF"
  proof -
    have "screenState ?h = SCREEN_OFF" using off by (simp add: screenState_loop sh)
    then have l: "loop spf inp s = ?h" unfolding loop_def by (rule render_off)
    obtain o1 where 1: "display ?k = display s @ o1" "list_all isBrightness o1"
      using display_handleKeyboard by blast
    obtain o2 where 2: "display ?u = display ?k @ o2" "list_all isBrightness o2"
      using display_updateScreenTimeout by blast
    have "display (loop spf inp s) = display s @ (o1 @ o2)"
      using 1 2 by (simp add: l display_history)
    moreover have "list_all isBrightness (o1 @ o2)" using 1 2 by simp
    ultimately show ?thesis using l issuedI by blast
  qed
  have C: "loop spf inp s = updateHistory (millisHistory inp) (readSensors inp s)
        \<and> screenState (loop spf inp s) = SCREEN_OFF
        \<and> display (loop spf inp s) = display s"
    if off: "screenState s = SCREEN_OFF"
      and idle: "\<not> (isChange (keyboard inp) \<and> isPressed (keyboard inp))"
  proof -
    have k: "?k = s" using idle by (auto simp: handleKeyboard_def)
    have u: "?u = s" using off by (simp add: k updateScreenTimeout_off)
    have "screenState ?h = SCREEN_OFF" using off by (simp add: u sh)
    then have "loop spf inp s = ?h" unfolding loop_def by (rule render_off)
    then show ?thesis using off by (simp add: u sh display_history)
  qed
  have D: "handleKeyboard kb t s
            = s\<lparr>lastActivityTime := t,
                 display := display s @ [SetBrightness (normalBrightness s)],
                 screenState := SCREEN_ON, needsFullRedraw := True\<rparr>"
    if "screenState s = SCREEN_OFF" "isChange kb" "isPressed kb"
    using that by (simp add: handleKeyboard_def wakeScreen_off)
  show ?thesis
    apply (intro conjI impI)
    using A B C D apply blast+
    done
qed


theorem screen_off_no_drawing_witness:
  "screenState ((setup_fn boot0)\<lparr>screenState := SCREEN_OFF\<rparr>) = SCREEN_OFF
   \<and> display (loop spf0 (idle 3000) ((setup_fn boot0)\<lparr>screenState := SCREEN_OFF\<rparr>))
       = display (setup_fn boot0)
   \<and> screenState (loop spf0 (idle 3000) ((setup_fn boot0)\<lparr>screenState := SCREEN_OFF\<rparr>))
       = SCREEN_OFF
   \<and> issued ((setup_fn boot0)\<lparr>screenState := SCREEN_OFF\<rparr>)
         (handleKeyboard (keyboard (press ''h'' 3000)) 3000
            ((setup_fn boot0)\<lparr>screenState := SCREEN_OFF\<rparr>))
       = [SetBrightness 80]
   \<and> screenState (loop spf0 (idle 4000000) ((setup_fn boot0)\<lparr>screenTimeoutOption := 0\<rparr>))
       = SCREEN_OFF
   \<and> issued ((setup_fn boot0)\<lparr>screenTimeoutOption := 0\<rparr>)
         (loop spf0 (idle 4000000) ((setup_fn boot0)\<lparr>screenTimeoutOption := 0\<rparr>))
       = [SetBrightness 0]"
proof -
  let ?off = "(setup_fn boot0)\<lparr>screenState := SCREEN_OFF\<rparr>"
  let ?t = "(setup_fn boot0)\<lparr>screenTimeoutOption := 0\<rparr>"
  have f: "screenState ?off = SCREEN_OFF" "display ?off = display (setup_fn boot0)"
    "normalBrightness ?off = 80"
    by (simp_all add: setup_fn_def Let_def emit_def globals0_def)
  have k: "\<not> (isChange (keyboard (idle x)) \<and> isPressed (keyboard (idle x)))" for x
    by (simp add: idle_def)
  have p: "isChange (keyboard (press ''h'' 3000))" "isPressed (keyboard (press ''h'' 3000))"
    by (simp_all add: press_def)
  have g: "screenState ?t = SCREEN_ON" "lastActivityTime ?t = 2600" "screenTimeoutOption ?t = 0"
    by (simp_all add: setup_fn_def Let_def emit_def globals0_def boot0_def)
  have kt: "handleKeyboard (keyboard (idle 4000000)) (millisWake (idle 4000000)) ?t = ?t"
    using k by (auto simp: handleKeyboard_def)
  have u: "updateScreenTimeout (millisTimeout (idle 4000000)) ?t
      = ?t\<lparr>display := display ?t @ [SetBrightness 0], screenState := SCREEN_OFF\<rparr>"
    by (simp add: updateScreenTimeout_def screenTimeoutValues_def Let_def g emit_def idle_def)
  have so: "screenState (loop spf0 (idle 4000000) ?t) = SCREEN_OFF"
    by (simp add: screenState_loop kt u)
  note T1 = screen_off_no_drawing [of ?off spf0 "idle 3000" 0 "keyboard (press ''h'' 3000)" 3000]
  note T2 = screen_off_no_drawing [of ?t spf0 "idle 4000000" 0 "keyboard (idle 0)" 0]
  have "display (loop spf0 (idle 3000) ?off) = display ?off
      \<and> screenState (loop spf0 (idle 3000) ?off) = SCREEN_OFF"
    using T1 f(1) k [of 3000] by blast
  then have 1: "display (loop spf0 (idle 3000) ?off) = display (setup_fn boot0)
      \<and> screenState (loop spf0 (idle 3000) ?off) = SCREEN_OFF"
    by (simp add: f(2))
  have "handleKeyboard (keyboard (press ''h'' 3000)) 3000 ?off
      = ?off\<lparr>lastActivityTime := 3000,
              display := display ?off @ [SetBrightness (normalBrightness ?off)],
              screenState := SCREEN_ON, needsFullRedraw := True\<rparr>"
    using T1 f(1) p by blast
  then have 2: "issued ?off (handleKeyboard (keyboard (press ''h'' 3000)) 3000 ?off)
      = [SetBrightness 80]"
    by (simp add: issued_def f(3))
  have "loop spf0 (idle 4000000) ?t
      = updateHistory (millisHistory (idle 4000000)) (readSensors (idle 4000000)
          (updateScreenTimeout (millisTimeout (idle 4000000))
             (handleKeyboard (keyboard (idle 4000000)) (millisWake (idle 4000000)) ?t)))"
    using T2 so by blast
  then have 3: "issued ?t (loop spf0 (idle 4000000) ?t) = [SetBrightness 0]"
    by (simp add: kt u display_history issued_def)
  show ?thesis using f 1 2 so 3 by simp
qed

lemma currentPage_h:
  "currentPage s = 0 \<Longrightarrow> currentPage (handleKey CHR ''h'' s) = 2"
  "currentPage s = 0 \<Longrightarrow> currentPage (handleKey CHR ''H'' s) = 2"
  by (simp_all add: handleKey_def Let_def)

text \<open>
  Claim C5. A key press (keyboard changed and a key is down) calls \<open>wakeScreen\<close> first.
  With the screen off that is all it does: the result is the wake transition and the
  page is unchanged. With the screen on, the activity time is reset and the keys are
  then interpreted. In particular on the main page with the screen on, \<open>h\<close> or \<open>H\<close>
  selects page 2 (the humidity graph) and requests a full redraw; with the screen off the
  same key leaves the page at 0 and turns the screen on.
\<close>

theorem key_wakes_before_navigation:
  "(isChange kb \<and> isPressed kb \<and> screenState s \<noteq> SCREEN_ON \<longrightarrow>
        handleKeyboard kb t s = wakeScreen t s
      \<and> handleKeyboard kb t s
          = s\<lparr>lastActivityTime := t,
               display := display s @ [SetBrightness (normalBrightness s)],
               screenState := SCREEN_ON, needsFullRedraw := True\<rparr>
      \<and> currentPage (handleKeyboard kb t s) = currentPage s)
   \<and> (isChange kb \<and> isPressed kb \<and> screenState s = SCREEN_ON \<longrightarrow>
        handleKeyboard kb t s = fold handleKey (keysWord kb) (wakeScreen t s)
      \<and> wakeScreen t s = s\<lparr>lastActivityTime := t\<rparr>
      \<and> lastActivityTime (handleKeyboard kb t s) = t
      \<and> screenState (handleKeyboard kb t s) = SCREEN_ON)
   \<and> (\<not> (isChange kb \<and> isPressed kb) \<longrightarrow> handleKeyboard kb t s = s)
   \<and> (isChange kb \<and> isPressed kb \<and> (keysWord kb = ''h'' \<or> keysWord kb = ''H'')
        \<and> currentPage s = 0 \<and> screenState s = SCREEN_ON \<longrightarrow>
        currentPage (handleKeyboard kb t s) = 2 \<and> needsFullRedraw (handleKeyboard kb t s))
   \<and> (isChange kb \<and> isPressed kb \<and> (keysWord kb = ''h'' \<or> keysWord kb = ''H'')
        \<and> currentPage s = 0 \<and> screenState s = SCREEN_OFF \<longrightarrow>
        currentPage (handleKeyboard kb t s) = 0
      \<and> screenState (handleKeyboard kb t s) = SCREEN_ON)"
proof -
  have A: "handleKeyboard kb t s = wakeScreen t s
      \<and> handleKeyboard kb t s
          = s\<lparr>lastActivityTime := t,
               display := display s @ [SetBrightness (normalBrightness s)],
               screenState := SCREEN_ON, needsFullRedraw := True\<rparr>
      \<and> currentPage (handleKeyboard kb t s) = currentPage s"
    if "isChange kb" "isPressed kb" "screenState s \<noteq> SCREEN_ON"
    using that by (simp add: handleKeyboard_def wakeScreen_off)
  have B: "handleKeyboard kb t s = fold handleKey (keysWord kb) (wakeScreen t s)
      \<and> wakeScreen t s = s\<lparr>lastActivityTime := t\<rparr>
      \<and> lastActivityTime (handleKeyboard kb t s) = t
      \<and> screenState (handleKeyboard kb t s) = SCREEN_ON"
    if "isChange kb" "isPressed kb" "screenState s = SCREEN_ON"
    using that by (simp add: handleKeyboard_def wakeScreen_on lastActivity_fold screenState_fold)
  have C: "handleKeyboard kb t s = s" if "\<not> (isChange kb \<and> isPressed kb)"
    using that by (auto simp: handleKeyboard_def)
  have D: "currentPage (handleKeyboard kb t s) = 2 \<and> needsFullRedraw (handleKeyboard kb t s)"
    if "isChange kb" "isPressed kb" "keysWord kb = ''h'' \<or> keysWord kb = ''H''"
      "currentPage s = 0" "screenState s = SCREEN_ON"
    using that by (auto simp: handleKeyboard_def wakeScreen_on handleKey_def Let_def)
  have E: "currentPage (handleKeyboard kb t s) = 0
      \<and> screenState (handleKeyboard kb t s) = SCREEN_ON"
    if "isChange kb" "isPressed kb" "currentPage s = 0" "screenState s = SCREEN_OFF"
    using that by (simp add: handleKeyboard_def wakeScreen_off)
  show ?thesis
    apply (intro conjI impI)
    using A B C D E apply blast+
    done
qed

theorem key_wakes_before_navigation_witness:
  "currentPage (setup_fn boot0) = 0 \<and> screenState (setup_fn boot0) = SCREEN_ON
   \<and> currentPage (handleKeyboard (keyboard (press ''h'' 3000)) 3000 (setup_fn boot0)) = 2
   \<and> currentPage (handleKeyboard (keyboard (press ''h'' 3000)) 3000
        ((setup_fn boot0)\<lparr>screenState := SCREEN_OFF\<rparr>)) = 0
   \<and> screenState (handleKeyboard (keyboard (press ''h'' 3000)) 3000
        ((setup_fn boot0)\<lparr>screenState := SCREEN_OFF\<rparr>)) = SCREEN_ON
   \<and> handleKeyboard (keyboard (idle 3000)) 3000 (setup_fn boot0) = setup_fn boot0"
proof -
  let ?off = "(setup_fn boot0)\<lparr>screenState := SCREEN_OFF\<rparr>"
  have f: "currentPage (setup_fn boot0) = 0" "screenState (setup_fn boot0) = SCREEN_ON"
    "currentPage ?off = 0" "screenState ?off = SCREEN_OFF"
    by (simp_all add: setup_fn_def Let_def emit_def globals0_def)
  have p: "isChange (keyboard (press ''h'' 3000))" "isPressed (keyboard (press ''h'' 3000))"
    "keysWord (keyboard (press ''h'' 3000)) = ''h''"
    by (simp_all add: press_def)
  have k: "\<not> (isChange (keyboard (idle 3000)) \<and> isPressed (keyboard (idle 3000)))"
    by (simp add: idle_def)
  note T1 = key_wakes_before_navigation [of "keyboard (press ''h'' 3000)" "setup_fn boot0" 3000]
  note T2 = key_wakes_before_navigation [of "keyboard (press ''h'' 3000)" ?off 3000]
  note T3 = key_wakes_before_navigation [of "keyboard (idle 3000)" "setup_fn boot0" 3000]
  have 1: "currentPage (handleKeyboard (keyboard (press ''h'' 3000)) 3000 (setup_fn boot0)) = 2"
    using T1 f p by blast
  have 2: "currentPage (handleKeyboard (keyboard (press ''h'' 3000)) 3000 ?off) = 0
      \<and> screenState (handleKeyboard (keyboard (press ''h'' 3000)) 3000 ?off) = SCREEN_ON"
    using T2 f p by blast
  have 3: "handleKeyboard (keyboard (idle 3000)) 3000 (setup_fn boot0) = setup_fn boot0"
    using T3 k by blast
  show ?thesis using f 1 2 3 by simp
qed

section \<open>Evaluating the rounding\<close>

lemma scale_exp_numeral:
  "scale_exp (numeral k) a e =
     (if 2 \<le> a then scale_exp (pred_numeral k) (a / 2) (e + 1)
      else if a < 1 then scale_exp (pred_numeral k) (a * 2) (e - 1)
      else e)"
  by (simp add: numeral_eq_Suc)

lemmas fl_eval = f32_def f64_def fl_def scale_exp_numeral pow2_def round_even_def Let_def

lemma f32_consts:
  "f32 0.3 = 5033165 / 16777216" "f32 2.3 = 9646899 / 4194304"
  "f32 0.05 = 13421773 / 268435456" "f64 0.05 = 3602879701896397 / 72057594037927936"
  "f64 0.1 = 3602879701896397 / 36028797018963968"
  by (simp_all add: fl_eval)


section \<open>The first store of the loop\<close>

text \<open>
  Claim C8. History stores are to be gated by elapsed time, with the 60000 ms interval
  crossed between any two consecutive stores. Between the stores that \<open>loop()\<close> makes
  this holds (\<open>gaps_run\<close>). It fails for the first pair: \<open>setup()\<close> stores the first sample
  itself and leaves \<open>lastHistoryUpdate\<close> at 0, where the store of \<open>updateHistory\<close> sets it
  to the clock, so the first store of the loop comes as soon as the clock reaches 60000.
  When \<open>setup()\<close> ends at 2600 ms and an iteration runs at 60000 ms, that iteration stores
  the second sample 57400 ms after the first.
\<close>

theorem first_loop_store_early:
  "historyCount (setup_fn boot0) = 1
   \<and> tempHistory (setup_fn boot0) ! 0 = bootTemp boot0
   \<and> lastHistoryUpdate (setup_fn boot0) = 0
   \<and> lastActivityTime (setup_fn boot0) = 2600
   \<and> historyCount (loop spf0 (idle 60000) (setup_fn boot0)) = 2
   \<and> tempHistory (loop spf0 (idle 60000) (setup_fn boot0)) ! 1 = shtTemp (idle 60000)
   \<and> appendLog spf0 [idle 60000] (setup_fn boot0) = [60000]
   \<and> millisHistory (idle 60000) - millisActivity boot0 = 57400
   \<and> \<not> millisHistory (idle 60000) - millisActivity boot0 \<ge> historyInterval
   \<and> \<not> gaps_ok (millisActivity boot0) (appendLog spf0 [idle 60000] (setup_fn boot0))"
proof -
  let ?s = "setup_fn boot0" and ?i = "idle 60000"
  have f: "historyCount ?s = 1" "historyIndex ?s = 1" "lastHistoryUpdate ?s = 0"
    "lastActivityTime ?s = 2600" "tempHistory ?s ! 0 = bootTemp boot0"
    by (simp_all add: setup_fn_def Let_def emit_def globals0_def boot0_def)
  have inv: "ring_inv ?s" "1 \<le> historyCount ?s" by (simp_all add: ring_inv_setup)
  have g: "millisHistory ?i - lastHistoryUpdate ?s \<ge> historyInterval"
    by (simp add: f idle_def historyInterval_def)
  have h: "hist (loop spf0 ?i ?s) = hist (storeSample (millisHistory ?i) (readSensors ?i ?s))"
    by (rule loop_step_hist(1) [OF inv g])
  have c: "historyCount (loop spf0 ?i ?s) = 2"
    using h by (simp add: hist_def storeSample_def readSensors_def f historySize_def)
  have l: "length (tempHistory ?s) = 60" using inv(1) by (simp add: ring_inv_def)
  have t: "tempHistory (loop spf0 ?i ?s) ! 1 = shtTemp ?i"
    using h l by (simp add: hist_def storeSample_def readSensors_def f)
  have mh: "millisHistory ?i = 60000" by (simp add: idle_def)
  have ix: "historyIndex (loop spf0 ?i ?s) \<noteq> historyIndex ?s"
    using loop_step_index [OF inv, of spf0 ?i] g by blast
  have a: "appendLog spf0 [?i] ?s = [60000]"
    by (simp add: ix mh)
  have d: "millisHistory ?i - millisActivity boot0 = 57400"
    by (simp add: mh boot0_def)
  have n: "\<not> millisHistory ?i - millisActivity boot0 \<ge> historyInterval"
    by (simp add: d historyInterval_def)
  have "\<not> gaps_ok (millisActivity boot0) (appendLog spf0 [?i] ?s)"
    unfolding a using n by (simp add: mh)
  then show ?thesis using f c t a d n by blast
qed

section \<open>Incremental redraw\<close>

lemma box_skip:
  "\<bar>f32 (value - dispValue)\<bar> < f64 0.05 \<Longrightarrow>
     updateSingleBoxValue spf s boxX value dispValue color format unit = (dispValue, [])"
  by (simp add: updateSingleBoxValue_def Let_def abs_if)

lemma box_draw:
  "\<not> \<bar>f32 (value - dispValue)\<bar> < f64 0.05 \<Longrightarrow>
     updateSingleBoxValue spf s boxX value dispValue color format unit
       = (value,
          [FillRect (boxX + boxBorderWidth + 2) (boxY s + 45 - 2)
             (boxWidth - (boxBorderWidth * 2) - 4) 35 TFT_BLACK,
           SetTextSize 2, SetTextColor color,
           SetCursor (boxX + c_div (boxWidth - getTextWidth (spf format [ArgF value]) 2) 2)
             (boxY s + 45),
           Print (spf format [ArgF value]),
           SetTextSize 1, SetTextColor color,
           SetCursor (boxX + c_div (boxWidth - getTextWidth unit 1) 2) (boxY s + 68),
           Print unit])"
  by (simp add: updateSingleBoxValue_def drawCenteredTextInBox_def Let_def abs_if)

lemma graph_skip:
  "\<bar>f32 (value - graphDispValue s)\<bar> < f64 0.05 \<Longrightarrow>
     updateGraphValue spf value color unit title s = s"
  by (simp add: updateGraphValue_def Let_def abs_if)

lemma graph_draw:
  "\<not> \<bar>f32 (value - graphDispValue s)\<bar> < f64 0.05 \<Longrightarrow>
     updateGraphValue spf value color unit title s
       = s\<lparr>graphDispValue := value,
            display := display s @
              [FillRect (5 + int (length title) * 6 + 10) 3 70 12 TFT_BLACK,
               SetTextSize 1, SetTextColor color,
               SetCursor (5 + int (length title) * 6 + 10) 5,
               Print (spf ''%.1f %s'' [ArgF value, ArgS unit])]\<rparr>"
  by (simp add: updateGraphValue_def Let_def abs_if emit_def)

lemma disp_drawBattery:
  "dispTemp (drawBattery spf f pw s) = dispTemp s"
  "dispHumidity (drawBattery spf f pw s) = dispHumidity s"
  "dispPressure (drawBattery spf f pw s) = dispPressure s"
  by (simp_all add: drawBattery_def emit_def Let_def split: prod.splits)

lemma main_page_caches:
  "dispTemp (updateMainPageValues spf pw s)
     = (if \<bar>f32 (getDisplayTemp s (temperature s) - dispTemp s)\<bar> < f64 0.05 then dispTemp s
        else getDisplayTemp s (temperature s))"
  "dispHumidity (updateMainPageValues spf pw s)
     = (if \<bar>f32 (humidity s - dispHumidity s)\<bar> < f64 0.05 then dispHumidity s else humidity s)"
  "dispPressure (updateMainPageValues spf pw s)
     = (if \<bar>f32 (pressure s - dispPressure s)\<bar> < f64 0.05 then dispPressure s else pressure s)"
  by (simp_all add: updateMainPageValues_def Let_def disp_drawBattery emit_def
        getDisplayTemp_def split: prod.splits)
     (auto simp: updateSingleBoxValue_def Let_def abs_if split: if_splits)

lemma main_page_skip:
  assumes "\<bar>f32 (getDisplayTemp s (temperature s) - dispTemp s)\<bar> < f64 0.05"
    "\<bar>f32 (humidity s - dispHumidity s)\<bar> < f64 0.05"
    "\<bar>f32 (pressure s - dispPressure s)\<bar> < f64 0.05"
  shows "updateMainPageValues spf pw s = drawBattery spf False pw s"
  using assms by (simp add: updateMainPageValues_def Let_def box_skip emit_def)

theorem redraw_skip_counterexample:
  "\<bar>f32 0.05 - pow2 (- 30)\<bar> < (0.05 :: real)
   \<and> updateSingleBoxValue spf0 (setup_fn boot0) 6 (f32 0.05) (pow2 (- 30))
         COLOR_TEMP ''%.1f'' ''C''
       = (f32 0.05,
          [FillRect 10 79 64 35 TFT_BLACK,
           SetTextSize 2, SetTextColor COLOR_TEMP, SetCursor 18 81, Print ''%.1f'',
           SetTextSize 1, SetTextColor COLOR_TEMP, SetCursor 39 104, Print ''C''])
   \<and> updateSingleBoxValue spf0 (setup_fn boot0) 6 (f32 0.05) (pow2 (- 30))
         COLOR_TEMP ''%.1f'' ''C''
       \<noteq> (pow2 (- 30), [])
   \<and> graphDispValue (updateGraphValue spf0 (f32 0.05) COLOR_TEMP ''C'' ''TEMPERATURE''
         ((setup_fn boot0)\<lparr>graphDispValue := pow2 (- 30)\<rparr>)) = f32 0.05
   \<and> updateGraphValue spf0 (f32 0.05) COLOR_TEMP ''C'' ''TEMPERATURE''
         ((setup_fn boot0)\<lparr>graphDispValue := pow2 (- 30)\<rparr>)
       \<noteq> (setup_fn boot0)\<lparr>graphDispValue := pow2 (- 30)\<rparr>"
proof -
  let ?g = "(setup_fn boot0)\<lparr>graphDispValue := pow2 (- 30)\<rparr>"
  have p: "pow2 (- 30) = 1 / 1073741824" by (simp add: pow2_def)
  have a: "\<bar>f32 0.05 - pow2 (- 30)\<bar> < (0.05 :: real)" unfolding f32_consts p by simp
  have r: "f32 (13421773 / 268435456 - 1 / 1073741824) = 13421773 / 268435456"
    by (simp add: fl_eval)
  have n: "\<not> \<bar>f32 (f32 0.05 - pow2 (- 30))\<bar> < f64 0.05"
    unfolding f32_consts p r by simp
  have y: "boxY (setup_fn boot0) = 36"
    by (simp add: setup_fn_def Let_def emit_def globals0_def boot0_def topMargin_def
          boxHeight_def c_div_def)
  have b: "updateSingleBoxValue spf0 (setup_fn boot0) 6 (f32 0.05) (pow2 (- 30))
         COLOR_TEMP ''%.1f'' ''C''
       = (f32 0.05,
          [FillRect 10 79 64 35 TFT_BLACK,
           SetTextSize 2, SetTextColor COLOR_TEMP, SetCursor 18 81, Print ''%.1f'',
           SetTextSize 1, SetTextColor COLOR_TEMP, SetCursor 39 104, Print ''C''])"
    unfolding box_draw [OF n]
    by (simp add: y spf0_def boxBorderWidth_def boxWidth_def getTextWidth_def c_div_def)
  have gd: "graphDispValue ?g = pow2 (- 30)" by simp
  have n': "\<not> \<bar>f32 (f32 0.05 - graphDispValue ?g)\<bar> < f64 0.05" using n by simp
  have g: "graphDispValue (updateGraphValue spf0 (f32 0.05) COLOR_TEMP ''C'' ''TEMPERATURE'' ?g)
      = f32 0.05"
    unfolding graph_draw [OF n'] by simp
  have ne: "f32 0.05 \<noteq> pow2 (- 30)" unfolding f32_consts p by simp
  have g2: "updateGraphValue spf0 (f32 0.05) COLOR_TEMP ''C'' ''TEMPERATURE'' ?g \<noteq> ?g"
    using g gd ne by metis
  have b2: "updateSingleBoxValue spf0 (setup_fn boot0) 6 (f32 0.05) (pow2 (- 30))
         COLOR_TEMP ''%.1f'' ''C'' \<noteq> (pow2 (- 30), [])"
    unfolding b by simp
  show ?thesis using a b b2 g g2 by blast
qed

text \<open>
  Claim C4, as amended. \<open>updateSingleBoxValue\<close> (a value box of the main page) and
  \<open>updateGraphValue\<close> (the current value of a graph page) compute the difference of the
  new value and the cached one in binary32. When the absolute value of that rounded
  difference is below the \<open>double\<close> nearest to 0.05 they return at once, with the cached
  value as it was and nothing issued on the display. In every other case they store
  the new value in the cache, clear the field and print the value (and, for a box, the
  unit) again. Hence the three caches of the main page after \<open>updateMainPageValues\<close> are
  the old values where the rounded difference is below that bound and the new values
  elsewhere, and with all three below it only \<open>drawBattery\<close> runs.
\<close>

theorem redraw_skipped_iff_below_epsilon:
  "(\<bar>f32 (value - dispValue)\<bar> < f64 0.05 \<longrightarrow>
        updateSingleBoxValue spf s boxX value dispValue color format unit = (dispValue, []))
   \<and> (\<not> \<bar>f32 (value - dispValue)\<bar> < f64 0.05 \<longrightarrow>
        updateSingleBoxValue spf s boxX value dispValue color format unit
          = (value,
             [FillRect (boxX + boxBorderWidth + 2) (boxY s + 45 - 2)
                (boxWidth - (boxBorderWidth * 2) - 4) 35 TFT_BLACK,
              SetTextSize 2, SetTextColor color,
              SetCursor (boxX + c_div (boxWidth - getTextWidth (spf format [ArgF value]) 2) 2)
                (boxY s + 45),
              Print (spf format [ArgF value]),
              SetTextSize 1, SetTextColor color,
              SetCursor (boxX + c_div (boxWidth - getTextWidth unit 1) 2) (boxY s + 68),
              Print unit]))
   \<and> (\<bar>f32 (value - graphDispValue s)\<bar> < f64 0.05 \<longrightarrow>
        updateGraphValue spf value color unit title s = s)
   \<and> (\<not> \<bar>f32 (value - graphDispValue s)\<bar> < f64 0.05 \<longrightarrow>
        updateGraphValue spf value color unit title s
          = s\<lparr>graphDispValue := value,
               display := display s @
                 [FillRect (5 + int (length title) * 6 + 10) 3 70 12 TFT_BLACK,
                  SetTextSize 1, SetTextColor color,
                  SetCursor (5 + int (length title) * 6 + 10) 5,
                  Print (spf ''%.1f %s'' [ArgF value, ArgS unit])]\<rparr>)
   \<and> dispTemp (updateMainPageValues spf pw s)
       = (if \<bar>f32 (getDisplayTemp s (temperature s) - dispTemp s)\<bar> < f64 0.05 then dispTemp s
          else getDisplayTemp s (temperature s))
   \<and> dispHumidity (updateMainPageValues spf pw s)
       = (if \<bar>f32 (humidity s - dispHumidity s)\<bar> < f64 0.05 then dispHumidity s
          else humidity s)
   \<and> dispPressure (updateMainPageValues spf pw s)
       = (if \<bar>f32 (pressure s - dispPressure s)\<bar> < f64 0.05 then dispPressure s
          else pressure s)
   \<and> (\<bar>f32 (getDisplayTemp s (temperature s) - dispTemp s)\<bar> < f64 0.05
        \<and> \<bar>f32 (humidity s - dispHumidity s)\<bar> < f64 0.05
        \<and> \<bar>f32 (pressure s - dispPressure s)\<bar> < f64 0.05 \<longrightarrow>
        updateMainPageValues spf pw s = drawBattery spf False pw s)"
  apply (intro conjI impI)
  using box_skip [of "value" dispValue spf s boxX color format unit]
    box_draw [of "value" dispValue spf s boxX color format unit]
    graph_skip [of "value" s spf color unit title]
    graph_draw [of "value" s spf color unit title]
    main_page_caches [of spf pw s] main_page_skip [of s spf pw]
  apply blast+
  done

theorem redraw_skipped_iff_below_epsilon_witness:
  "\<bar>f32 (21.53125 - 21.5)\<bar> < f64 0.05 \<and> \<not> \<bar>f32 (21.5625 - 21.5)\<bar> < f64 0.05
   \<and> updateSingleBoxValue spf0 ((setup_fn boot0)\<lparr>graphDispValue := 21.5\<rparr>) 6 21.53125 21.5
         COLOR_TEMP ''%.1f'' ''C''
       = (21.5, [])
   \<and> fst (updateSingleBoxValue spf0 ((setup_fn boot0)\<lparr>graphDispValue := 21.5\<rparr>) 6 21.5625
         21.5 COLOR_TEMP ''%.1f'' ''C'')
       = 21.5625
   \<and> updateGraphValue spf0 21.53125 COLOR_TEMP ''C'' ''TEMPERATURE''
         ((setup_fn boot0)\<lparr>graphDispValue := 21.5\<rparr>)
       = (setup_fn boot0)\<lparr>graphDispValue := 21.5\<rparr>
   \<and> graphDispValue (updateGraphValue spf0 21.5625 COLOR_TEMP ''C'' ''TEMPERATURE''
         ((setup_fn boot0)\<lparr>graphDispValue := 21.5\<rparr>)) = 21.5625"
proof -
  let ?s = "(setup_fn boot0)\<lparr>graphDispValue := 21.5\<rparr>"
  have a: "\<bar>f32 (21.53125 - 21.5)\<bar> < f64 0.05"
    unfolding f32_consts by (simp add: fl_eval)
  have b: "\<not> \<bar>f32 (21.5625 - 21.5)\<bar> < f64 0.05"
    unfolding f32_consts by (simp add: fl_eval)
  have g: "graphDispValue ?s = 21.5" by simp
  note T1 = redraw_skipped_iff_below_epsilon [of "21.53125" "21.5" spf0 ?s 6 COLOR_TEMP
      "''%.1f''" "''C''" "''TEMPERATURE''" power0]
  note T2 = redraw_skipped_iff_below_epsilon [of "21.5625" "21.5" spf0 ?s 6 COLOR_TEMP
      "''%.1f''" "''C''" "''TEMPERATURE''" power0]
  have 1: "updateSingleBoxValue spf0 ?s 6 21.53125 21.5 COLOR_TEMP ''%.1f'' ''C'' = (21.5, [])"
    using T1 a by blast
  have 2: "fst (updateSingleBoxValue spf0 ?s 6 21.5625 21.5 COLOR_TEMP ''%.1f'' ''C'') = 21.5625"
    using T2 b by simp
  have 3: "updateGraphValue spf0 21.53125 COLOR_TEMP ''C'' ''TEMPERATURE'' ?s = ?s"
    using T1 a unfolding g by blast
  have 4: "graphDispValue (updateGraphValue spf0 21.5625 COLOR_TEMP ''C'' ''TEMPERATURE'' ?s)
      = 21.5625"
    using T2 b unfolding g by simp
  show ?thesis using a b 1 2 3 4 by blast
qed

section \<open>Graph scaling\<close>

lemma scanMinMax_fold: "scanMinMax vals (a, b) = (fold min vals a, fold max vals b)"
  unfolding scanMinMax_def
  by (induction vals arbitrary: a b) (auto simp: min_def max_def)

lemma scanMinMax_Min_Max:
  "scanMinMax vals (a, b) = (Min (insert a (set vals)), Max (insert b (set vals)))"
proof -
  have "fold min vals a = Min (set (a # vals))" by (rule Min.set_eq_fold [symmetric])
  moreover have "fold max vals b = Max (set (b # vals))" by (rule Max.set_eq_fold [symmetric])
  ultimately show ?thesis by (simp add: scanMinMax_fold)
qed

lemma loop_vals:
  "map (\<lambda>i. loopVal s history convertToF (int i)) [0..<nat (historyCount s)]
     = map (convertSample convertToF) (readOrdered s history)"
  by (simp add: readOrdered_def loopVal_def)

lemma graphScale_eq:
  assumes "historyCount s > 1"
  shows "graphScale s history convertToF
      = (let vals = map (convertSample convertToF) (readOrdered s history);
             mn = Min (set vals); mx = Max (set vals);
             rng = f32 (mx - mn)
         in if rng < 2
            then (let mid = f32 (f64 (f32 (mx + mn) / 2))
                  in (f32 (f64 (mid - 1)), f32 (f64 (mid + 1)), 2))
            else (let pad = f32 (f64 (rng * f64 0.1));
                      lo = f32 (mn - pad); hi = f32 (mx + pad)
                  in (lo, hi, f32 (hi - lo))))"
proof -
  let ?vals = "map (convertSample convertToF) (readOrdered s history)"
  let ?first = "convertSample convertToF
                  (history ! nat (c_mod (historyIndex s - historyCount s + historySize) historySize))"
  have n: "0 < nat (historyCount s)" using assms by simp
  have len: "length ?vals = nat (historyCount s)" by (simp add: readOrdered_def)
  have "?vals ! 0 = ?first"
    using n by (simp add: readOrdered_def histIdx_def)
  moreover have "?vals ! 0 \<in> set ?vals" using n len by (intro nth_mem) simp
  ultimately have ins: "insert ?first (set ?vals) = set ?vals" by auto
  have sc: "scanMinMax ?vals (?first, ?first) = (Min (set ?vals), Max (set ?vals))"
    by (simp only: scanMinMax_Min_Max ins)
  show ?thesis
    unfolding graphScale_def Let_def loop_vals sc by simp
qed

lemma read_edgeState:
  "readOrdered edgeState (tempHistory edgeState) = [5033165 / 16777216, 9646899 / 4194304]"
  "historyCount edgeState = 2"
proof -
  have r: "readOrdered edgeState (tempHistory edgeState) = [f32 0.3, f32 2.3]"
    unfolding edgeState_def
    using read_appendAll_gen [OF read_appendSample(1) ring_inv_globals0, of edgeSamples]
    by (simp add: readOrdered_empty globals0_def edgeSamples_def)
  then show "readOrdered edgeState (tempHistory edgeState)
      = [5033165 / 16777216, 9646899 / 4194304]"
    unfolding f32_consts .
  have "nat (historyCount edgeState) = 2"
    using length_readOrdered [of edgeState "tempHistory edgeState"] by (simp add: r)
  then show "historyCount edgeState = 2" by linarith
qed

theorem graph_scale_counterexample:
  "historyCount edgeState > 1
   \<and> map (convertSample False) (readOrdered edgeState (tempHistory edgeState))
       = [5033165 / 16777216, 9646899 / 4194304]
   \<and> (9646899 / 4194304 - 5033165 / 16777216 :: real) < 2
   \<and> graphScale edgeState (tempHistory edgeState) False
       = (6710887 / 67108864, 5 / 2, 5033165 / 2097152)
   \<and> graphScale edgeState (tempHistory edgeState) False
       \<noteq> ((9646899 / 4194304 + 5033165 / 16777216) / 2 - 1,
           (9646899 / 4194304 + 5033165 / 16777216) / 2 + 1, 2)"
proof -
  have c: "historyCount edgeState > 1" by (simp add: read_edgeState)
  have v: "map (convertSample False) (readOrdered edgeState (tempHistory edgeState))
       = [5033165 / 16777216, 9646899 / 4194304]"
    by (simp add: read_edgeState convertSample_def)
  have g: "graphScale edgeState (tempHistory edgeState) False
       = (6710887 / 67108864, 5 / 2, 5033165 / 2097152)"
    unfolding graphScale_eq [OF c] v Let_def
    by (simp add: fl_eval)
  have "(9646899 / 4194304 - 5033165 / 16777216 :: real) < 2" by simp
  then show ?thesis using c v g by simp
qed

text \<open>
  Claim C3, as amended. With at least two samples in the history, let \<open>mn\<close> and \<open>mx\<close>
  be the least and the greatest of the converted samples read in order, and \<open>rng\<close> their
  difference rounded to binary32. When \<open>rng < 2\<close> the scaler returns the bounds
  \<open>mid - 1\<close> and \<open>mid + 1\<close>, each rounded to binary32, for \<open>mid\<close> the rounded half of the
  rounded sum \<open>mx + mn\<close>, and the range exactly 2. Otherwise it returns \<open>mn - pad\<close> and
  \<open>mx + pad\<close>, each rounded, for \<open>pad\<close> the rounded product of \<open>rng\<close> and the \<open>double\<close>
  nearest to 0.1, and their rounded difference as the range.
\<close>

theorem graph_scale_bounds:
  assumes "historyCount s > 1"
  shows "let vals = map (convertSample convertToF) (readOrdered s history);
             mn = Min (set vals); mx = Max (set vals);
             rng = f32 (mx - mn)
         in length vals = nat (historyCount s)
          \<and> graphScale s history convertToF
              = (if rng < 2
                 then (let mid = f32 (f64 (f32 (mx + mn) / 2))
                       in (f32 (f64 (mid - 1)), f32 (f64 (mid + 1)), 2))
                 else (let pad = f32 (f64 (rng * f64 0.1));
                           lo = f32 (mn - pad); hi = f32 (mx + pad)
                       in (lo, hi, f32 (hi - lo))))"
proof -
  have "length (map (convertSample convertToF) (readOrdered s history)) = nat (historyCount s)"
    by (simp add: readOrdered_def)
  then show ?thesis
    using graphScale_eq [OF assms, of history convertToF] by (simp add: Let_def)
qed

theorem graph_scale_bounds_witness:
  "historyCount (appendAll (ramp 3) globals0) > 1
   \<and> map (convertSample False)
         (readOrdered (appendAll (ramp 3) globals0) (tempHistory (appendAll (ramp 3) globals0)))
       = [1, 2, 3]
   \<and> graphScale (appendAll (ramp 3) globals0) (tempHistory (appendAll (ramp 3) globals0)) False
       = (13421773 / 16777216, 13421773 / 4194304, 5033165 / 2097152)
   \<and> historyCount (appendAll (ramp 2) globals0) > 1
   \<and> map (convertSample True)
         (readOrdered (appendAll (ramp 2) globals0) (tempHistory (appendAll (ramp 2) globals0)))
       = [8860467 / 262144, 4666163 / 131072]
   \<and> graphScale (appendAll (ramp 2) globals0) (tempHistory (appendAll (ramp 2) globals0)) True
       = (2208563 / 65536, 2339635 / 65536, 2)"
proof -
  let ?s3 = "appendAll (ramp 3) globals0" and ?s2 = "appendAll (ramp 2) globals0"
  have r3: "ramp 3 = [mkSample 1, mkSample 2, mkSample 3]"
    by (simp add: ramp_def upt_conv_Cons numeral_eq_Suc)
  have r2: "ramp 2 = [mkSample 1, mkSample 2]"
    by (simp add: ramp_def upt_conv_Cons numeral_eq_Suc)
  have rd3: "readOrdered ?s3 (tempHistory ?s3) = [1, 2, 3]"
    using read_appendAll_gen [OF read_appendSample(1) ring_inv_globals0, of "ramp 3"]
    by (simp add: readOrdered_empty globals0_def r3 mkSample_def)
  have rd2: "readOrdered ?s2 (tempHistory ?s2) = [1, 2]"
    using read_appendAll_gen [OF read_appendSample(1) ring_inv_globals0, of "ramp 2"]
    by (simp add: readOrdered_empty globals0_def r2 mkSample_def)
  have "nat (historyCount ?s3) = 3" using length_readOrdered [of ?s3 "tempHistory ?s3"]
    by (simp add: rd3)
  then have c3: "historyCount ?s3 > 1" by linarith
  have "nat (historyCount ?s2) = 2" using length_readOrdered [of ?s2 "tempHistory ?s2"]
    by (simp add: rd2)
  then have c2: "historyCount ?s2 > 1" by linarith
  have v3: "map (convertSample False) (readOrdered ?s3 (tempHistory ?s3)) = [1, 2, 3]"
    by (simp add: rd3 convertSample_def)
  have v2: "map (convertSample True) (readOrdered ?s2 (tempHistory ?s2))
      = [8860467 / 262144, 4666163 / 131072]"
    by (simp add: rd2 convertSample_def fl_eval)
  have g3: "graphScale ?s3 (tempHistory ?s3) False
      = (13421773 / 16777216, 13421773 / 4194304, 5033165 / 2097152)"
    using graph_scale_bounds [OF c3, of False "tempHistory ?s3"]
    unfolding Let_def v3 by (simp add: fl_eval)
  have g2: "graphScale ?s2 (tempHistory ?s2) True = (2208563 / 65536, 2339635 / 65536, 2)"
    using graph_scale_bounds [OF c2, of True "tempHistory ?s2"]
    unfolding Let_def v2 by (simp add: fl_eval)
  show ?thesis using c3 v3 g3 c2 v2 g2 by blast
qed

end
